theory Spec2Isabelle
  imports Complex_Main "HOL-Library.Product_Lexorder" "HOL-Library.Multiset"
begin

section \<open>Python results and exceptions\<close>

text \<open>
  Every exception the modelled functions can raise is a value: a function that may raise
  returns \<open>error + 'a\<close>, with \<open>Inl\<close> for the exception. The scores of the intent predictor are
  real numbers (the rounding of its float arithmetic and NaN are outside that model); the
  numbers of a telemetry payload are modelled with the infinities and NaN.
\<close>

datatype error =
    TypeError
  | ValueError
  | OverflowError
  | KeyError
  | ZeroDivisionError
  | OSError
  | HTTPException nat

definition ebind :: "error + 'a \<Rightarrow> ('a \<Rightarrow> error + 'b) \<Rightarrow> error + 'b" where
  "ebind r f = (case r of Inl e \<Rightarrow> Inl e | Inr x \<Rightarrow> f x)"

section \<open>intent\_predictor.py: the rule-based intent predictor\<close>

text \<open>
  A dict is an association list in insertion order, read through \<open>map_of\<close>; the empty
  dict is the empty list.
\<close>

type_synonym features = "(string \<times> real) list"
type_synonym scores = "(string \<times> real) list"

definition INTENTS :: "string list" where
  "INTENTS = [''push'', ''conserve'', ''prepare_pit'', ''bluff'']"

text \<open>\<^verbatim>\<open>features.get(k, default)\<close>\<close>

definition feat_get :: "features \<Rightarrow> string \<Rightarrow> real \<Rightarrow> real" where
  "feat_get features k d = (case map_of features k of None \<Rightarrow> d | Some v \<Rightarrow> v)"

text \<open>\<^verbatim>\<open>scores[k] += w\<close>: KeyError when the key is missing.\<close>

definition dict_incr :: "string \<Rightarrow> real \<Rightarrow> scores \<Rightarrow> error + scores" where
  "dict_incr k w sc =
     (if k \<in> set (map fst sc)
      then Inr (map (\<lambda>(k', v). if k' = k then (k', v + w) else (k', v)) sc)
      else Inl KeyError)"

text \<open>\<^verbatim>\<open>d[k]\<close>: KeyError when the key is missing.\<close>

definition dict_item :: "scores \<Rightarrow> string \<Rightarrow> error + real" where
  "dict_item d k = (case map_of d k of None \<Rightarrow> Inl KeyError | Some v \<Rightarrow> Inr v)"

text \<open>
  The seven \<^verbatim>\<open>if\<close> statements of \<^verbatim>\<open>predict\<close>, in source order: the condition, the label
  whose score is bumped and the weight added.
\<close>

definition rules :: "features \<Rightarrow> (bool \<times> string \<times> real) list" where
  "rules features =
     (let spd_mean = feat_get features ''speed_mean'' 0;
          spd_std = feat_get features ''speed_std'' 0;
          delta_speed = feat_get features ''delta_speed'' 0;
          throttle = feat_get features ''throttle_mean'' 0;
          brake = feat_get features ''brake_mean'' 0;
          lapprog_slope = feat_get features ''lapprog_slope'' 0;
          tyre_temp = feat_get features ''tyre_temp_mean'' 0
      in [(spd_mean > 35 \<and> delta_speed > 0.5 \<and> throttle > 40, ''push'', 2.0),
          (spd_std > 3.0, ''push'', 0.5),
          (tyre_temp > 80 \<and> brake > 10, ''prepare_pit'', 2.0),
          (brake > 20 \<and> lapprog_slope < 0, ''prepare_pit'', 1.0),
          (spd_mean < 25 \<and> throttle < 30 \<and> spd_std < 2.0, ''conserve'', 2.0),
          (\<bar>lapprog_slope\<bar> < 0.001, ''conserve'', 0.5),
          (spd_std > 6.0 \<and> \<bar>delta_speed\<bar> > 3.0 \<and> brake < 5, ''bluff'', 1.5)])"

text \<open>Running the \<^verbatim>\<open>if\<close> statements one after the other over the score dict.\<close>

fun apply_rules :: "(bool \<times> string \<times> real) list \<Rightarrow> scores \<Rightarrow> error + scores" where
  "apply_rules [] sc = Inr sc"
| "apply_rules ((c, k, w) # rs) sc =
     (if c then ebind (dict_incr k w sc) (apply_rules rs) else apply_rules rs sc)"

text \<open>
  \<^verbatim>\<open>max(probs, key=probs.get)\<close>: the first key, in iteration order, whose value no later
  key exceeds strictly; ValueError on an empty dict.
\<close>

fun max_by_value :: "scores \<Rightarrow> error + string" where
  "max_by_value [] = Inl ValueError"
| "max_by_value (p # ps) =
     Inr (fst (foldl (\<lambda>best q. if snd best < snd q then q else best) p ps))"

text \<open>\<^verbatim>\<open>{k: float(v/total) for k, v in scores.items()}\<close>: division by zero raises.\<close>

definition normalise :: "scores \<Rightarrow> real \<Rightarrow> error + scores" where
  "normalise sc tot =
     (if sc \<noteq> [] \<and> tot = 0 then Inl ZeroDivisionError
      else Inr (map (\<lambda>(k, v). (k, v / tot)) sc))"

definition predict :: "features \<Rightarrow> error + (string \<times> scores \<times> real)" where
  "predict features =
     (if features = [] then
        (if length INTENTS = 0 then Inl ZeroDivisionError
         else Inr (''conserve'',
                   map (\<lambda>i. (i, 1 / real (length INTENTS))) INTENTS,
                   1 / real (length INTENTS)))
      else
        ebind (apply_rules (rules features) (map (\<lambda>i. (i, 0)) INTENTS)) (\<lambda>sc.
          let sc' = map (\<lambda>(k, v). (k, v + 0.01)) sc;
              tot = sum_list (map snd sc')
          in ebind (normalise sc' tot) (\<lambda>probs.
               ebind (max_by_value probs) (\<lambda>intent.
                 ebind (dict_item probs intent) (\<lambda>confidence.
                   Inr (intent, probs, confidence))))))"

text \<open>No \<^verbatim>\<open>if\<close> statement of the rule table has a true condition.\<close>

definition no_rule_fires :: "features \<Rightarrow> bool" where
  "no_rule_fires features = list_all (\<lambda>(c, k, w). \<not> c) (rules features)"

section \<open>feature\_extractor.py: the rolling window of one driver\<close>

text \<open>
  \<^verbatim>\<open>collections.deque(maxlen=n)\<close>: the items, oldest first, and the bound. \<^verbatim>\<open>append\<close> on
  a deque of bound 0 stores nothing; on a full deque it drops the leftmost item.
\<close>

record 'a deque =
  items :: "'a list"
  maxlen :: nat

definition deque_append :: "'a \<Rightarrow> 'a deque \<Rightarrow> 'a deque" where
  "deque_append x d =
     (if maxlen d = 0 then d
      else if length (items d) = maxlen d then d\<lparr>items := tl (items d) @ [x]\<rparr>
      else d\<lparr>items := items d @ [x]\<rparr>)"

record 'a DriverWindow =
  buf :: "'a deque"

definition DriverWindow_init :: "nat \<Rightarrow> 'a DriverWindow" where
  "DriverWindow_init n = \<lparr>buf = \<lparr>items = [], maxlen = n\<rparr>\<rparr>"

definition push :: "'a DriverWindow \<Rightarrow> 'a \<Rightarrow> 'a DriverWindow" where
  "push w pkt = w\<lparr>buf := deque_append pkt (buf w)\<rparr>"

definition is_ready :: "'a DriverWindow \<Rightarrow> nat \<Rightarrow> bool" where
  "is_ready w min_samples = (length (items (buf w)) \<ge> min_samples)"

section \<open>intent\_service.py: broadcast to the connected viewers\<close>

text \<open>
  The set \<^verbatim>\<open>clients\<close> is the list of its members in iteration order, without repetition.
  \<^verbatim>\<open>send\<close> tells whether \<^verbatim>\<open>ws.send_json(message)\<close> returns (\<open>True\<close>) or raises an
  \<^verbatim>\<open>Exception\<close> (\<open>False\<close>). The first loop of \<^verbatim>\<open>broadcast_json\<close> records every handle it
  tries and collects the failing ones; the second removes them, and \<^verbatim>\<open>set.remove\<close> raises
  KeyError on a missing member.
\<close>

record 'ws broadcast =
  attempted :: "'ws list"
  delivered :: "'ws list"
  to_remove :: "'ws list"

fun send_loop :: "('ws \<Rightarrow> 'm \<Rightarrow> bool) \<Rightarrow> 'm \<Rightarrow> 'ws list \<Rightarrow> 'ws broadcast \<Rightarrow> 'ws broadcast" where
  "send_loop send message [] b = b"
| "send_loop send message (ws # rest) b =
     (if send ws message
      then send_loop send message rest
             (b\<lparr>attempted := attempted b @ [ws], delivered := delivered b @ [ws]\<rparr>)
      else send_loop send message rest
             (b\<lparr>attempted := attempted b @ [ws], to_remove := to_remove b @ [ws]\<rparr>))"

fun remove_loop :: "'ws list \<Rightarrow> 'ws list \<Rightarrow> error + 'ws list" where
  "remove_loop [] clients = Inr clients"
| "remove_loop (r # rs) clients =
     (if r \<in> set clients then remove_loop rs (removeAll r clients) else Inl KeyError)"

definition broadcast_json ::
  "('ws \<Rightarrow> 'm \<Rightarrow> bool) \<Rightarrow> 'm \<Rightarrow> 'ws list \<Rightarrow> error + ('ws list \<times> 'ws broadcast)" where
  "broadcast_json send message clients =
     (let b = send_loop send message clients \<lparr>attempted = [], delivered = [], to_remove = []\<rparr>
      in ebind (remove_loop (to_remove b) clients) (\<lambda>clients'. Inr (clients', b)))"

section \<open>Run identifiers: main.py and sim\_config\_api.py\<close>

text \<open>
  The timestamp \<^verbatim>\<open>strftime("%Y%m%dT%H%M%SZ")\<close> of the clock is the argument \<open>ts\<close>.
  \<^verbatim>\<open>if name:\<close> is false for \<^verbatim>\<open>None\<close> and for the empty string. \<^verbatim>\<open>str.isalnum\<close> on one
  character is the argument \<open>isalnum\<close> of the version of main.py.
\<close>

definition truthy :: "string option \<Rightarrow> bool" where
  "truthy name = (case name of None \<Rightarrow> False | Some s \<Rightarrow> s \<noteq> [])"

definition mk_run_id_main :: "(char \<Rightarrow> bool) \<Rightarrow> string option \<Rightarrow> string \<Rightarrow> string" where
  "mk_run_id_main isalnum name ts =
     (if truthy name
      then (let safe = take 40 (map (\<lambda>c. if isalnum c \<or> c \<in> set ''-_'' then c else CHR ''_'')
                                     (the name))
            in safe @ ''_'' @ ts)
      else ''run_'' @ ts)"

text \<open>sim\_config\_api.py: \<^verbatim>\<open>safe = name.replace(" ", "_")\<close>.\<close>

definition mk_run_id :: "string option \<Rightarrow> string \<Rightarrow> string" where
  "mk_run_id name ts =
     (if truthy name
      then (let safe = map (\<lambda>c. if c = CHR '' '' then CHR ''_'' else c) (the name)
            in safe @ ''_'' @ ts)
      else ''run_'' @ ts)"

section \<open>sim\_config\_api.py: starting a run\<close>

text \<open>
  The module state is the current run id, the current replay record and the files under
  the replay directory; a file is what \<^verbatim>\<open>json.dump\<close> wrote into it. What writing a path
  does is given by the file system: it succeeds, or \<^verbatim>\<open>open(path, "w")\<close> raises (a missing
  directory, as for a run name with a slash, or no permission) and the file is untouched,
  or \<^verbatim>\<open>open\<close> truncates the file and \<^verbatim>\<open>json.dump\<close> raises, leaving a partial file. The
  validated request body is the run name and the rest of the configuration. The three
  readings of the clock (for the run id, the metadata and the start of the replay) are
  arguments. The function returns its result together with the state it leaves, also when
  it raises.
\<close>

record 'c SimConfig =
  run_name :: "string option"
  settings :: 'c

record 'c cfg_dict =
  cfg :: "'c SimConfig"
  meta_created_at :: string
  meta_run_id :: string

record ('c, 'e) replay =
  run_id :: string
  replay_config :: "'c cfg_dict"
  started_at :: string
  telemetry :: "'e list"
  intent_predictions :: "'e list"
  events :: "'e list"

datatype ('c, 'e) json_file = ConfigJson "'c cfg_dict" | ReplayJson "('c, 'e) replay" | Partial

datatype write_outcome = Written | OpenRaises error | DumpRaises error

record ('c, 'e) run_state =
  current_run_id :: "string option"
  current_replay :: "('c, 'e) replay option"
  disk :: "string \<rightharpoonup> ('c, 'e) json_file"
  file_system :: "string \<Rightarrow> write_outcome"

definition REPLAY_DIR :: string where
  "REPLAY_DIR = ''replays''"

text \<open>\<^verbatim>\<open>os.path.join(a, b)\<close> on POSIX: an absolute second part replaces the first.\<close>

definition path_join :: "string \<Rightarrow> string \<Rightarrow> string" where
  "path_join a b =
     (if b \<noteq> [] \<and> hd b = CHR ''/'' then b
      else if a = [] \<or> last a = CHR ''/'' then a @ b
      else a @ ''/'' @ b)"

text \<open>\<^verbatim>\<open>with open(path, "w") as f: json.dump(content, f, indent=2)\<close>\<close>

definition write_json ::
  "string \<Rightarrow> ('c, 'e) json_file \<Rightarrow> ('c, 'e) run_state \<Rightarrow> (error + unit) \<times> ('c, 'e) run_state" where
  "write_json path content s =
     (case file_system s path of
        Written \<Rightarrow> (Inr (), s\<lparr>disk := (disk s)(path \<mapsto> content)\<rparr>)
      | OpenRaises e \<Rightarrow> (Inl e, s)
      | DumpRaises e \<Rightarrow> (Inl e, s\<lparr>disk := (disk s)(path \<mapsto> Partial)\<rparr>))"

definition save_config_file ::
  "string \<Rightarrow> 'c cfg_dict \<Rightarrow> ('c, 'e) run_state \<Rightarrow> (error + string) \<times> ('c, 'e) run_state" where
  "save_config_file rid c s =
     (let path = path_join REPLAY_DIR (rid @ ''_config.json'')
      in case write_json path (ConfigJson c) s of
           (Inl e, s') \<Rightarrow> (Inl e, s')
         | (Inr u, s') \<Rightarrow> (Inr path, s'))"

definition start_simulation ::
  "'c SimConfig \<Rightarrow> bool \<Rightarrow> string \<Rightarrow> string \<Rightarrow> string \<Rightarrow> ('c, 'e) run_state
     \<Rightarrow> (error + (string \<times> string)) \<times> ('c, 'e) run_state" where
  "start_simulation config force ts created started s =
     (let rid = mk_run_id (run_name config) ts;
          cfg_dict = \<lparr>cfg = config, meta_created_at = created, meta_run_id = rid\<rparr>
      in case save_config_file rid cfg_dict s of
           (Inl e, s1) \<Rightarrow> (Inl e, s1)
         | (Inr p, s1) \<Rightarrow>
             if truthy (current_run_id s1) \<and> \<not> force
             then (Inl (HTTPException 409), s1)
             else (let rep = \<lparr>run_id = rid, replay_config = cfg_dict, started_at = started,
                               telemetry = [], intent_predictions = [], events = []\<rparr>;
                       replay_path = path_join REPLAY_DIR (rid @ ''.json'');
                       s2 = s1\<lparr>current_run_id := Some rid, current_replay := Some rep\<rparr>
                   in case write_json replay_path (ReplayJson rep) s2 of
                        (Inl e, s3) \<Rightarrow> (Inl e, s3)
                      | (Inr u, s3) \<Rightarrow> (Inr (rid, replay_path), s3)))"

section \<open>main.py: Python values of a telemetry payload\<close>

text \<open>
  The floats other than NaN are \<open>-\<infinity>\<close>, the finite ones (a real number each) and \<open>+\<infinity>\<close>,
  in the order of Python's comparison. NaN compares false with everything, so it has no
  place in that order: a float result that may be NaN is a \<open>pynum\<close>.
\<close>

datatype pyfloat = NegInf | Fin real | PosInf

instantiation pyfloat :: linorder
begin

fun less_eq_pyfloat :: "pyfloat \<Rightarrow> pyfloat \<Rightarrow> bool" where
  "less_eq_pyfloat NegInf y = True"
| "less_eq_pyfloat (Fin a) NegInf = False"
| "less_eq_pyfloat (Fin a) (Fin b) = (a \<le> b)"
| "less_eq_pyfloat (Fin a) PosInf = True"
| "less_eq_pyfloat PosInf NegInf = False"
| "less_eq_pyfloat PosInf (Fin b) = False"
| "less_eq_pyfloat PosInf PosInf = True"

definition less_pyfloat :: "pyfloat \<Rightarrow> pyfloat \<Rightarrow> bool" where
  "less_pyfloat x y = (x \<le> y \<and> \<not> y \<le> x)"

instance
proof
  fix x y z :: pyfloat
  show "(x < y) = (x \<le> y \<and> \<not> y \<le> x)" by (simp add: less_pyfloat_def)
  show "x \<le> x" by (cases x) simp_all
  show "x \<le> y \<Longrightarrow> y \<le> z \<Longrightarrow> x \<le> z" by (cases x; cases y; cases z) simp_all
  show "x \<le> y \<Longrightarrow> y \<le> x \<Longrightarrow> x = y" by (cases x; cases y) simp_all
  show "x \<le> y \<or> y \<le> x" by (cases x; cases y) auto
qed

end

datatype pynum = NaN | Num pyfloat

text \<open>
  The values \<^verbatim>\<open>json\<close> produces: null, booleans, numbers (\<^verbatim>\<open>json.loads\<close> also reads the
  literals \<^verbatim>\<open>NaN\<close> and \<^verbatim>\<open>Infinity\<close>), strings, arrays and objects.
\<close>

datatype pyval =
    PNone
  | PBool bool
  | PInt int
  | PFloat pyfloat
  | PNaN
  | PStr string
  | PList "pyval list"
  | PDict "(string \<times> pyval) list"

text \<open>
  What the interpreter does beyond this repository is taken as given: \<^verbatim>\<open>int(s)\<close> and
  \<^verbatim>\<open>float(s)\<close> on a string (\<open>None\<close> where they raise ValueError), the \<^verbatim>\<open>repr\<close> of a
  value that is not a string, and the order in which \<^verbatim>\<open>list.sort\<close> leaves the items when
  a key holds a NaN (it depends on the sorting algorithm; the arguments are the keys and
  the items).
\<close>

record builtins =
  int_of_str :: "string \<Rightarrow> int option"
  float_of_str :: "string \<Rightarrow> pynum option"
  repr :: "pyval \<Rightarrow> string"
  sort_with_nan ::
    "(int \<times> int \<times> pynum \<times> pynum) list \<Rightarrow> (string \<times> pyval) list list
       \<Rightarrow> (string \<times> pyval) list list"

text \<open>
  \<^verbatim>\<open>int(v)\<close>: a float is truncated towards zero, an infinity raises OverflowError and NaN
  raises ValueError; None, lists and dicts raise TypeError.
\<close>

fun py_int :: "builtins \<Rightarrow> pyval \<Rightarrow> error + int" where
  "py_int py PNone = Inl TypeError"
| "py_int py (PBool b) = Inr (if b then 1 else 0)"
| "py_int py (PInt i) = Inr i"
| "py_int py (PFloat NegInf) = Inl OverflowError"
| "py_int py (PFloat PosInf) = Inl OverflowError"
| "py_int py (PFloat (Fin r)) = Inr (if 0 \<le> r then \<lfloor>r\<rfloor> else \<lceil>r\<rceil>)"
| "py_int py PNaN = Inl ValueError"
| "py_int py (PStr s) = (case int_of_str py s of None \<Rightarrow> Inl ValueError | Some i \<Rightarrow> Inr i)"
| "py_int py (PList vs) = Inl TypeError"
| "py_int py (PDict kvs) = Inl TypeError"

text \<open>\<^verbatim>\<open>n.bit_length()\<close> of an int that is not negative.\<close>

fun bit_length :: "nat \<Rightarrow> nat" where
  "bit_length n = (if n = 0 then 0 else Suc (bit_length (n div 2)))"

declare bit_length.simps [simp del]

text \<open>
  The double nearest to an int, ties going to the even mantissa of 53 bits: with \<open>e\<close> the
  number of bits beyond 53, the int is cut to a multiple of \<open>2 ^ e\<close>. Ints of at most 53
  bits are doubles themselves.
\<close>

definition round_to_double :: "int \<Rightarrow> int" where
  "round_to_double i =
     (if \<bar>i\<bar> < 2 ^ 53 then i
      else (let a = \<bar>i\<bar>;
                e = bit_length (nat a) - 53;
                q0 = a div 2 ^ e;
                r = a mod 2 ^ e;
                q = (if 2 * r > 2 ^ e \<or> (2 * r = 2 ^ e \<and> odd q0) then q0 + 1 else q0)
            in sgn i * (q * 2 ^ e)))"

text \<open>
  \<^verbatim>\<open>float(v)\<close>: an int is rounded to the nearest double and raises OverflowError when that
  is beyond the largest one.
\<close>

fun py_float :: "builtins \<Rightarrow> pyval \<Rightarrow> error + pynum" where
  "py_float py PNone = Inl TypeError"
| "py_float py (PBool b) = Inr (Num (Fin (if b then 1 else 0)))"
| "py_float py (PInt i) =
     (if \<bar>round_to_double i\<bar> < 2 ^ 1024 then Inr (Num (Fin (of_int (round_to_double i))))
      else Inl OverflowError)"
| "py_float py (PFloat f) = Inr (Num f)"
| "py_float py PNaN = Inr NaN"
| "py_float py (PStr s) = (case float_of_str py s of None \<Rightarrow> Inl ValueError | Some f \<Rightarrow> Inr f)"
| "py_float py (PList vs) = Inl TypeError"
| "py_float py (PDict kvs) = Inl TypeError"

fun py_str :: "builtins \<Rightarrow> pyval \<Rightarrow> string" where
  "py_str py (PStr s) = s"
| "py_str py v = repr py v"

section \<open>main.py: dicts in insertion order\<close>

text \<open>
  \<^verbatim>\<open>d.get(k, default)\<close>, \<^verbatim>\<open>d[k] = v\<close> (an existing key keeps its place, a new key goes to
  the end) and \<^verbatim>\<open>d.update(other)\<close>.
\<close>

definition dict_get :: "('k \<times> 'v) list \<Rightarrow> 'k \<Rightarrow> 'v \<Rightarrow> 'v" where
  "dict_get d k dflt = (case map_of d k of None \<Rightarrow> dflt | Some v \<Rightarrow> v)"

fun dict_set :: "'k \<Rightarrow> 'v \<Rightarrow> ('k \<times> 'v) list \<Rightarrow> ('k \<times> 'v) list" where
  "dict_set k v [] = [(k, v)]"
| "dict_set k v ((k', v') # d) = (if k' = k then (k, v) # d else (k', v') # dict_set k v d)"

definition dict_update :: "('k \<times> 'v) list \<Rightarrow> ('k \<times> 'v) list \<Rightarrow> ('k \<times> 'v) list" where
  "dict_update d other = foldl (\<lambda>acc (k, v). dict_set k v acc) d other"

type_synonym snapshot = "(string \<times> pyval) list"
type_synonym driver_states = "(string \<times> snapshot) list"

section \<open>main.py: the leaderboard\<close>

definition MAX_LEADERBOARD :: nat where
  "MAX_LEADERBOARD = 20"

definition sort_key_of :: "builtins \<Rightarrow> snapshot \<Rightarrow> error + (int \<times> int \<times> pynum \<times> pynum)" where
  "sort_key_of py d =
     ebind (py_int py (dict_get d ''completed_laps'' (PInt 0))) (\<lambda>laps.
     ebind (py_int py (dict_get d ''position'' (PInt 9999))) (\<lambda>pos.
     ebind (py_float py (dict_get d ''total_time'' (PFloat PosInf))) (\<lambda>total_time.
     ebind (py_float py (dict_get d ''best_lap'' (PFloat PosInf))) (\<lambda>best_lap.
       Inr (- laps, pos, total_time, best_lap)))))"

text \<open>A key without NaN, as a tuple in the lexicographic order.\<close>

fun ordered_key ::
  "int \<times> int \<times> pynum \<times> pynum \<Rightarrow> (int \<times> int \<times> pyfloat \<times> pyfloat) option" where
  "ordered_key (laps, pos, Num total_time, Num best_lap) = Some (laps, pos, total_time, best_lap)"
| "ordered_key (laps, pos, NaN, best_lap) = None"
| "ordered_key (laps, pos, Num total_time, NaN) = None"

text \<open>
  \<^verbatim>\<open>xs.sort(key=f)\<close>: the key of every item is computed first, in order, and the first
  exception leaves the call; then the items are sorted stably by their keys. When a key
  holds a NaN the comparisons are not an order and the result is the interpreter's.
\<close>

fun keys_of :: "('a \<Rightarrow> error + 'k) \<Rightarrow> 'a list \<Rightarrow> error + 'k list" where
  "keys_of f [] = Inr []"
| "keys_of f (x # xs) = ebind (f x) (\<lambda>k. ebind (keys_of f xs) (\<lambda>ks. Inr (k # ks)))"

definition list_sort ::
  "builtins \<Rightarrow> (snapshot \<Rightarrow> error + (int \<times> int \<times> pynum \<times> pynum)) \<Rightarrow> snapshot list
     \<Rightarrow> error + snapshot list" where
  "list_sort py f xs =
     ebind (keys_of f xs) (\<lambda>ks.
       case those (map ordered_key ks) of
         Some oks \<Rightarrow> Inr (map snd (sort_key fst (zip oks xs)))
       | None \<Rightarrow> Inr (sort_with_nan py ks xs))"

definition recompute_leaderboard :: "builtins \<Rightarrow> driver_states \<Rightarrow> error + snapshot list" where
  "recompute_leaderboard py driver_states =
     ebind (list_sort py (sort_key_of py) (map snd driver_states)) (\<lambda>drivers.
       let top_n = take MAX_LEADERBOARD drivers
       in Inr (map (\<lambda>(idx, d). dict_set ''rank'' (PInt (int idx)) d) (enumerate 1 top_n)))"

text \<open>The key of a snapshot, when it can be computed and holds no NaN.\<close>

definition key_of :: "builtins \<Rightarrow> snapshot \<Rightarrow> (int \<times> int \<times> pyfloat \<times> pyfloat) option" where
  "key_of py d = (case sort_key_of py d of Inl e \<Rightarrow> None | Inr k \<Rightarrow> ordered_key k)"

section \<open>main.py: merging a telemetry payload\<close>

text \<open>
  The part of \<^verbatim>\<open>process_telemetry_update\<close> that changes \<^verbatim>\<open>driver_states\<close>; \<open>now\<close> is
  the reading of \<^verbatim>\<open>time.time()\<close>. The replay entry, the scheduling of the emit and the
  \<^verbatim>\<open>driver:update\<close> message that follow do not write to \<^verbatim>\<open>driver_states\<close>.
\<close>

definition driver_id_of :: "builtins \<Rightarrow> snapshot \<Rightarrow> string" where
  "driver_id_of py payload = py_str py (the (map_of payload ''driver_id''))"

definition process_telemetry_update ::
  "builtins \<Rightarrow> real \<Rightarrow> snapshot \<Rightarrow> driver_states \<Rightarrow> error + driver_states" where
  "process_telemetry_update py now payload driver_states =
     (if payload = [] \<or> ''driver_id'' \<notin> set (map fst payload) then Inl ValueError
      else (let driver_id = driver_id_of py payload;
                existing = dict_get driver_states driver_id [];
                updated = dict_set ''last_update_ts'' (PFloat (Fin now))
                            (dict_update existing payload)
            in Inr (dict_set driver_id updated driver_states)))"

text \<open>A sequence of merges, each with its clock reading; the first exception ends it.\<close>

fun process_all ::
  "builtins \<Rightarrow> (real \<times> snapshot) list \<Rightarrow> driver_states \<Rightarrow> error + driver_states" where
  "process_all py [] driver_states = Inr driver_states"
| "process_all py ((now, payload) # rest) driver_states =
     ebind (process_telemetry_update py now payload driver_states) (process_all py rest)"

text \<open>The value stored for a field of a driver, if any.\<close>

definition field_of :: "driver_states \<Rightarrow> string \<Rightarrow> string \<Rightarrow> pyval option" where
  "field_of driver_states driver_id k = map_of (dict_get driver_states driver_id []) k"

section \<open>main.py: the debounced emit\<close>

text \<open>
  The state of the emitter: the global \<^verbatim>\<open>last_emit_ts\<close>; the global \<^verbatim>\<open>_emit_task\<close>, which
  refers to a task (tasks are numbered in the order of their creation); the tasks created
  and not done, each with the place it has reached; the driver state the emit reads; the
  broadcasts made; the last reading of the clock. A task is either in its sleep, which
  ends at the given time, or past \<^verbatim>\<open>recompute_leaderboard\<close> and inside \<^verbatim>\<open>await sio.emit\<close>,
  with the time at which the emit began and the leaderboard it sends. A broadcast is
  recorded with the time at which its emit began, the time at which it returned and the
  leaderboard sent. \<open>recompute\<close> is what the task computes from the driver state.

  Time is the reading of \<^verbatim>\<open>time.time()\<close>, taken never to go back, and \<^verbatim>\<open>asyncio.sleep(w)\<close>
  is taken not to return before \<open>w\<close> has passed on it.
\<close>

definition EMIT_INTERVAL_S :: real where
  "EMIT_INTERVAL_S = 0.5"

datatype 'l task = Sleeping real | Emitting real 'l

record ('s, 'l) emitter =
  last_emit_ts :: real
  emit_task :: "nat option"
  tasks :: "(nat \<times> 'l task) list"
  n_created :: nat
  store :: 's
  emitted :: "(real \<times> real \<times> 'l) list"
  clock :: real

text \<open>Task \<open>i\<close> is done and leaves the tasks; task \<open>i\<close> reaches the place \<open>tk\<close>.\<close>

definition task_done :: "nat \<Rightarrow> (nat \<times> 'l task) list \<Rightarrow> (nat \<times> 'l task) list" where
  "task_done i ts = filter (\<lambda>(j, tk). j \<noteq> i) ts"

definition task_at :: "nat \<Rightarrow> 'l task \<Rightarrow> (nat \<times> 'l task) list \<Rightarrow> (nat \<times> 'l task) list" where
  "task_at i tk ts = map (\<lambda>(j, tk'). if j = i then (j, tk) else (j, tk')) ts"

text \<open>
  \<^verbatim>\<open>schedule_emit_leaderboard\<close>: it returns when \<^verbatim>\<open>_emit_task\<close> refers to a task that is not
  done, and otherwise creates a task, which starts in its sleep of \<open>remaining\<close> seconds (a
  task with nothing to wait for is one whose sleep ends now).
\<close>

definition schedule_emit_leaderboard :: "real \<Rightarrow> ('s, 'l) emitter \<Rightarrow> ('s, 'l) emitter" where
  "schedule_emit_leaderboard now st =
     (let elapsed = now - last_emit_ts st;
          remaining = max 0 (EMIT_INTERVAL_S - elapsed)
      in if (case emit_task st of None \<Rightarrow> False | Some i \<Rightarrow> map_of (tasks st) i \<noteq> None)
         then st
         else st\<lparr>emit_task := Some (n_created st),
                 tasks := tasks st @ [(n_created st, Sleeping (now + remaining))],
                 n_created := Suc (n_created st)\<rparr>)"

text \<open>
  \<^verbatim>\<open>_delayed_emit\<close> of task \<open>i\<close> in its stretches between two \<^verbatim>\<open>await\<close>. After the sleep the
  task computes the leaderboard from the driver state of that moment (the lock it takes is
  never held across an \<^verbatim>\<open>await\<close>, so the task does not wait for it); when that raises,
  the \<^verbatim>\<open>finally\<close> clause sets \<^verbatim>\<open>_emit_task\<close> to \<^verbatim>\<open>None\<close> and the task is done. Otherwise it
  awaits \<^verbatim>\<open>sio.emit\<close>, and other coroutines run. When the emit returns, the broadcast is
  made, \<^verbatim>\<open>last_emit_ts\<close> is set to the clock and the \<^verbatim>\<open>finally\<close> clause runs; when the emit
  raises, only the \<^verbatim>\<open>finally\<close> clause runs, and no broadcast is recorded.
\<close>

definition delayed_emit_compute ::
  "('s \<Rightarrow> error + 'l) \<Rightarrow> nat \<Rightarrow> real \<Rightarrow> ('s, 'l) emitter \<Rightarrow> ('s, 'l) emitter" where
  "delayed_emit_compute recompute i t st =
     (case recompute (store st) of
        Inl e \<Rightarrow> st\<lparr>emit_task := None, tasks := task_done i (tasks st)\<rparr>
      | Inr leaderboard \<Rightarrow> st\<lparr>tasks := task_at i (Emitting t leaderboard) (tasks st)\<rparr>)"

definition delayed_emit_sent ::
  "nat \<Rightarrow> real \<Rightarrow> real \<Rightarrow> 'l \<Rightarrow> ('s, 'l) emitter \<Rightarrow> ('s, 'l) emitter" where
  "delayed_emit_sent i began t leaderboard st =
     st\<lparr>emitted := emitted st @ [(began, t, leaderboard)], last_emit_ts := t,
        emit_task := None, tasks := task_done i (tasks st)\<rparr>"

definition delayed_emit_failed :: "nat \<Rightarrow> ('s, 'l) emitter \<Rightarrow> ('s, 'l) emitter" where
  "delayed_emit_failed i st = st\<lparr>emit_task := None, tasks := task_done i (tasks st)\<rparr>"

text \<open>
  What happens, in time order: \<^verbatim>\<open>notify\<close> is called; the driver state changes; task \<open>i\<close>
  wakes, at or after the end of its sleep, and computes; the emit of task \<open>i\<close> returns; the
  emit of task \<open>i\<close> raises. An event that cannot happen in the state (a time in the past, a
  wake of a task that is not sleeping or before its sleep ends, the end of an emit that is
  not under way) gives \<open>None\<close>.
\<close>

datatype 's event =
    Notify real
  | Store 's
  | Wake nat real
  | Sent nat real
  | Failed nat real

fun step :: "('s \<Rightarrow> error + 'l) \<Rightarrow> 's event \<Rightarrow> ('s, 'l) emitter \<Rightarrow> ('s, 'l) emitter option" where
  "step recompute (Notify now) st =
     (if now < clock st then None
      else Some ((schedule_emit_leaderboard now st)\<lparr>clock := now\<rparr>))"
| "step recompute (Store s) st = Some (st\<lparr>store := s\<rparr>)"
| "step recompute (Wake i t) st =
     (case map_of (tasks st) i of
        Some (Sleeping due) \<Rightarrow>
          if t < due \<or> t < clock st then None
          else Some ((delayed_emit_compute recompute i t st)\<lparr>clock := t\<rparr>)
      | _ \<Rightarrow> None)"
| "step recompute (Sent i t) st =
     (case map_of (tasks st) i of
        Some (Emitting began leaderboard) \<Rightarrow>
          if t < clock st then None
          else Some ((delayed_emit_sent i began t leaderboard st)\<lparr>clock := t\<rparr>)
      | _ \<Rightarrow> None)"
| "step recompute (Failed i t) st =
     (case map_of (tasks st) i of
        Some (Emitting began leaderboard) \<Rightarrow>
          if t < clock st then None
          else Some ((delayed_emit_failed i st)\<lparr>clock := t\<rparr>)
      | _ \<Rightarrow> None)"

fun run :: "('s \<Rightarrow> error + 'l) \<Rightarrow> 's event list \<Rightarrow> ('s, 'l) emitter \<Rightarrow> ('s, 'l) emitter option" where
  "run recompute [] st = Some st"
| "run recompute (e # es) st =
     (case step recompute e st of None \<Rightarrow> None | Some st' \<Rightarrow> run recompute es st')"

text \<open>The state of the module when it is loaded, at clock reading \<open>t\<close>, with driver state \<open>s\<close>.\<close>

definition emitter_init :: "real \<Rightarrow> 's \<Rightarrow> ('s, 'l) emitter" where
  "emitter_init t s =
     \<lparr>last_emit_ts = 0, emit_task = None, tasks = [], n_created = 0, store = s, emitted = [],
      clock = t\<rparr>"

text \<open>Calls of \<^verbatim>\<open>notify\<close> and changes of the driver state, and nothing of a task.\<close>

fun outside_task :: "'s event \<Rightarrow> bool" where
  "outside_task (Notify now) = True"
| "outside_task (Store s) = True"
| "outside_task e = False"

text \<open>
  Broadcasts in which each emit began at least the interval after the one before had
  returned.
\<close>

fun spaced :: "(real \<times> real \<times> 'l) list \<Rightarrow> bool" where
  "spaced [] = True"
| "spaced [b] = True"
| "spaced ((began, returned, l) # (began', returned', l') # bs) =
     (returned + EMIT_INTERVAL_S \<le> began' \<and> spaced ((began', returned', l') # bs))"

text \<open>
  What every reachable state of the emitter satisfies. Either no task is outstanding and
  \<^verbatim>\<open>_emit_task\<close> is \<^verbatim>\<open>None\<close>, or one is and \<^verbatim>\<open>_emit_task\<close> refers to it. The broadcasts are
  spaced, each returned no earlier than it began, the last one returned at
  \<^verbatim>\<open>last_emit_ts\<close>, a sleeping task sleeps until an interval after it, and a task that is
  emitting began an interval after it.
\<close>

definition emit_inv :: "('s, 'l) emitter \<Rightarrow> bool" where
  "emit_inv st =
     (spaced (emitted st)
      \<and> list_all (\<lambda>(began, returned, l). began \<le> returned) (emitted st)
      \<and> (emitted st = [] \<or> fst (snd (last (emitted st))) = last_emit_ts st)
      \<and> (case tasks st of
           [] \<Rightarrow> emit_task st = None
         | [(i, Sleeping due)] \<Rightarrow>
             emit_task st = Some i
             \<and> (emitted st = [] \<or> last_emit_ts st + EMIT_INTERVAL_S \<le> due)
         | [(i, Emitting began leaderboard)] \<Rightarrow>
             emit_task st = Some i \<and> began \<le> clock st
             \<and> (emitted st = [] \<or> last_emit_ts st + EMIT_INTERVAL_S \<le> began)
         | _ \<Rightarrow> False))"

section \<open>Properties of the intent predictor\<close>

text \<open>
  C6. \<^verbatim>\<open>predict\<close> on an empty feature mapping returns the uniform distribution that gives
  probability 1/4 to each of exactly the four labels push, conserve, prepare\_pit and
  bluff, with confidence 1/4 (the label returned is conserve).
\<close>

theorem predict_empty_uniform:
  "predict [] =
     Inr (''conserve'',
          [(''push'', 1 / 4), (''conserve'', 1 / 4), (''prepare_pit'', 1 / 4), (''bluff'', 1 / 4)],
          1 / 4)"
  by (simp add: predict_def INTENTS_def)

lemma dict_incr_shape:
  assumes "map fst sc = INTENTS" "list_all (\<lambda>p. 0 \<le> snd p) sc" "k \<in> set INTENTS" "0 \<le> w"
  shows "\<exists>sc'. dict_incr k w sc = Inr sc' \<and> map fst sc' = INTENTS \<and> list_all (\<lambda>p. 0 \<le> snd p) sc'"
proof -
  let ?g = "\<lambda>(k', v). if k' = k then (k', v + w) else (k', v)"
  have a: "dict_incr k w sc = Inr (map ?g sc)"
    using assms(1,3) by (simp add: dict_incr_def)
  have b: "map fst (map ?g sc) = map fst sc"
    by (induction sc) (auto split: prod.splits)
  have c: "list_all (\<lambda>p. 0 \<le> snd p) (map ?g sc)"
    using assms(2,4) by (induction sc) (auto split: prod.splits)
  show ?thesis using a b c assms(1) by simp
qed

lemma apply_rules_shape:
  assumes "list_all (\<lambda>(c, k, w). k \<in> set INTENTS \<and> 0 \<le> w) rs"
    "map fst sc = INTENTS" "list_all (\<lambda>p. 0 \<le> snd p) sc"
  shows "\<exists>sc'. apply_rules rs sc = Inr sc' \<and> map fst sc' = INTENTS \<and> list_all (\<lambda>p. 0 \<le> snd p) sc'"
  using assms
proof (induction rs arbitrary: sc)
  case Nil
  then show ?case by simp
next
  case (Cons r rs)
  obtain c k w where r: "r = (c, k, w)" by (cases r)
  show ?case
  proof (cases c)
    case False
    then show ?thesis using Cons r by simp
  next
    case True
    from Cons.prems r have kw: "k \<in> set INTENTS" "0 \<le> w" by simp_all
    from dict_incr_shape[OF Cons.prems(2,3) kw] obtain sc1 where
      s1: "dict_incr k w sc = Inr sc1" "map fst sc1 = INTENTS" "list_all (\<lambda>p. 0 \<le> snd p) sc1"
      by blast
    from Cons.prems(1) have "list_all (\<lambda>(c, k, w). k \<in> set INTENTS \<and> 0 \<le> w) rs" by simp
    from Cons.IH[OF this s1(2,3)] show ?thesis
      using True r s1(1) by (simp add: ebind_def)
  qed
qed

lemma rules_ok: "list_all (\<lambda>(c, k, w). k \<in> set INTENTS \<and> 0 \<le> w) (rules features)"
  by (simp add: rules_def INTENTS_def Let_def)

lemma foldl_best:
  fixes p :: "string \<times> real"
  shows "\<exists>i<length (p # ps). foldl (\<lambda>best q. if snd best < snd q then q else best) p ps = (p # ps) ! i
      \<and> (\<forall>j<i. snd ((p # ps) ! j) < snd ((p # ps) ! i))
      \<and> (\<forall>j<length (p # ps). snd ((p # ps) ! j) \<le> snd ((p # ps) ! i))"
proof (induction ps rule: rev_induct)
  case Nil
  then show ?case by simp
next
  case (snoc x xs)
  let ?f = "\<lambda>best q. if snd best < snd q then q else best"
  from snoc obtain i where i: "i < length (p # xs)" "foldl ?f p xs = (p # xs) ! i"
    "\<forall>j<i. snd ((p # xs) ! j) < snd ((p # xs) ! i)"
    "\<forall>j<length (p # xs). snd ((p # xs) ! j) \<le> snd ((p # xs) ! i)" by blast
  have nth_old: "\<And>j. j < length (p # xs) \<Longrightarrow> (p # xs @ [x]) ! j = (p # xs) ! j"
    by (metis append_Cons nth_append)
  have nth_new: "(p # xs @ [x]) ! length (p # xs) = x"
    by (metis append_Cons nth_append_length)
  show ?case
  proof (cases "snd ((p # xs) ! i) < snd x")
    case True
    have "foldl ?f p (xs @ [x]) = x" using True i(2) by simp
    moreover have "\<forall>j<length (p # xs). snd ((p # xs @ [x]) ! j) < snd x"
      using i(4) True nth_old by (metis le_less_trans)
    moreover have "\<forall>j<length (p # xs @ [x]). snd ((p # xs @ [x]) ! j) \<le> snd x"
    proof (intro allI impI)
      fix j assume "j < length (p # xs @ [x])"
      then have "j < length (p # xs) \<or> j = length (p # xs)" by auto
      then show "snd ((p # xs @ [x]) ! j) \<le> snd x"
        using calculation(2) nth_new by (metis less_imp_le order_refl)
    qed
    ultimately show ?thesis
      using nth_new by (intro exI[of _ "length (p # xs)"]) simp
  next
    case False
    have "foldl ?f p (xs @ [x]) = (p # xs) ! i" using False i(2) by simp
    moreover have "(p # xs @ [x]) ! i = (p # xs) ! i" using nth_old i(1) by simp
    moreover have "\<forall>j<i. snd ((p # xs @ [x]) ! j) < snd ((p # xs) ! i)"
      using i(1,3) nth_old by (metis less_trans)
    moreover have "\<forall>j<length (p # xs @ [x]). snd ((p # xs @ [x]) ! j) \<le> snd ((p # xs) ! i)"
    proof (intro allI impI)
      fix j assume "j < length (p # xs @ [x])"
      then have "j < length (p # xs) \<or> j = length (p # xs)" by auto
      then show "snd ((p # xs @ [x]) ! j) \<le> snd ((p # xs) ! i)"
        using i(4) nth_old nth_new False by (metis not_less)
    qed
    ultimately show ?thesis
      using i(1) by (intro exI[of _ i]) simp
  qed
qed



lemma max_by_value_spec:
  assumes "ps \<noteq> []" "distinct (map fst ps)"
  shows "\<exists>i<length ps. max_by_value ps = Inr (fst (ps ! i))
     \<and> dict_item ps (fst (ps ! i)) = Inr (snd (ps ! i))
     \<and> (\<forall>j<i. snd (ps ! j) < snd (ps ! i))
     \<and> (\<forall>j<length ps. snd (ps ! j) \<le> snd (ps ! i))"
proof -
  from assms(1) obtain p qs where ps: "ps = p # qs" by (cases ps) auto
  from foldl_best[of p qs] obtain i where i: "i < length (p # qs)"
    "foldl (\<lambda>best q. if snd best < snd q then q else best) p qs = (p # qs) ! i"
    "\<forall>j<i. snd ((p # qs) ! j) < snd ((p # qs) ! i)"
    "\<forall>j<length (p # qs). snd ((p # qs) ! j) \<le> snd ((p # qs) ! i)" by blast
  have mem: "ps ! i \<in> set ps" using i(1) ps nth_mem by metis
  have "map_of ps (fst (ps ! i)) = Some (snd (ps ! i))"
    using assms(2) mem by (metis map_of_eq_Some_iff prod.collapse)
  then have d: "dict_item ps (fst (ps ! i)) = Inr (snd (ps ! i))"
    by (simp add: dict_item_def)
  have m: "max_by_value ps = Inr (fst (ps ! i))"
    unfolding ps using i(2) by simp
  show ?thesis using i(1,3,4) d m unfolding ps by blast
qed

lemma Max_at_index:
  fixes ps :: "(string \<times> real) list"
  assumes "i < length ps" "\<forall>j<length ps. snd (ps ! j) \<le> snd (ps ! i)"
  shows "Max (snd ` set ps) = snd (ps ! i)"
proof (rule Max_eqI)
  show "finite (snd ` set ps)" by simp
  show "snd (ps ! i) \<in> snd ` set ps" using assms(1) by simp
  fix y assume "y \<in> snd ` set ps"
  then obtain q where "q \<in> set ps" "y = snd q" by auto
  then obtain j where "j < length ps" "ps ! j = q" by (auto simp: in_set_conv_nth)
  then show "y \<le> snd (ps ! i)" using assms(2) \<open>y = snd q\<close> by auto
qed

lemma scores_explicit:
  assumes "map fst sc = INTENTS" "list_all (\<lambda>p. 0 \<le> snd p) sc"
  shows "\<exists>a b c d. sc = [(''push'', a), (''conserve'', b), (''prepare_pit'', c), (''bluff'', d)]
     \<and> 0 \<le> a \<and> 0 \<le> b \<and> 0 \<le> c \<and> 0 \<le> d"
proof -
  have "length sc = length INTENTS" using assms(1) by (metis length_map)
  then have "length sc = Suc (Suc (Suc (Suc 0)))" by (simp add: INTENTS_def)
  then obtain p q r s where sc: "sc = [p, q, r, s]"
    by (auto simp: length_Suc_conv)
  obtain kp a where p: "p = (kp, a)" by (cases p)
  obtain kq b where q: "q = (kq, b)" by (cases q)
  obtain kr c where r: "r = (kr, c)" by (cases r)
  obtain ks d where s: "s = (ks, d)" by (cases s)
  show ?thesis using assms unfolding sc p q r s INTENTS_def by simp
qed


lemma apply_rules_explicit:
  "\<exists>a b c d. 0 \<le> a \<and> 0 \<le> b \<and> 0 \<le> c \<and> 0 \<le> d
     \<and> apply_rules (rules features) (map (\<lambda>i. (i, 0)) INTENTS)
         = Inr [(''push'', a), (''conserve'', b), (''prepare_pit'', c), (''bluff'', d)]"
proof -
  have "map fst (map (\<lambda>i. (i, 0::real)) INTENTS) = INTENTS" by (simp add: INTENTS_def)
  moreover have "list_all (\<lambda>p. 0 \<le> snd p) (map (\<lambda>i. (i, 0::real)) INTENTS)" by (simp add: INTENTS_def)
  ultimately obtain sc where sc: "apply_rules (rules features) (map (\<lambda>i. (i, 0)) INTENTS) = Inr sc"
    "map fst sc = INTENTS" "list_all (\<lambda>p. 0 \<le> snd p) sc"
    using apply_rules_shape[OF rules_ok] by blast
  from scores_explicit[OF sc(2,3)] sc(1) show ?thesis by auto
qed

lemma predict_nonempty_steps:
  assumes ne: "features \<noteq> []"
  shows "\<exists>a b c d. 0 \<le> a \<and> 0 \<le> b \<and> 0 \<le> c \<and> 0 \<le> d
     \<and> apply_rules (rules features) (map (\<lambda>i. (i, 0)) INTENTS)
         = Inr [(''push'', a), (''conserve'', b), (''prepare_pit'', c), (''bluff'', d)]
     \<and> predict features =
         (let t = a + b + c + d + 4 / 100;
              probs = [(''push'', (a + 1 / 100) / t), (''conserve'', (b + 1 / 100) / t),
                       (''prepare_pit'', (c + 1 / 100) / t), (''bluff'', (d + 1 / 100) / t)]
          in ebind (max_by_value probs) (\<lambda>intent.
               ebind (dict_item probs intent) (\<lambda>confidence. Inr (intent, probs, confidence))))"
proof -
  from apply_rules_explicit[of features] obtain a b c d where
    nn: "0 \<le> a" "0 \<le> b" "0 \<le> c" "0 \<le> d" and
    ar: "apply_rules (rules features) (map (\<lambda>i. (i, 0)) INTENTS)
         = Inr [(''push'', a), (''conserve'', b), (''prepare_pit'', c), (''bluff'', d)]" by blast
  have t: "a + b + c + d + 4 / 100 \<noteq> 0" using nn by simp
  have tot: "a + 1 / 100 + (b + 1 / 100 + (c + 1 / 100 + (d + 1 / 100))) = a + b + c + d + 4 / 100"
    by simp
  have "predict features =
         (let t = a + b + c + d + 4 / 100;
              probs = [(''push'', (a + 1 / 100) / t), (''conserve'', (b + 1 / 100) / t),
                       (''prepare_pit'', (c + 1 / 100) / t), (''bluff'', (d + 1 / 100) / t)]
          in ebind (max_by_value probs) (\<lambda>intent.
               ebind (dict_item probs intent) (\<lambda>confidence. Inr (intent, probs, confidence))))"
    unfolding predict_def using ne t
    by (simp add: ar ebind_def normalise_def Let_def ac_simps del: max_by_value.simps)
  then show ?thesis using nn ar by blast
qed

text \<open>
  C5. \<^verbatim>\<open>predict\<close> is total: for every feature mapping (in particular every one with
  non-negative values) it returns a result and raises nothing; the probability dict has
  exactly the four fixed labels as keys, in the fixed order, its values sum to 1, each value
  is strictly positive, and the confidence is the largest probability, which is the
  probability of the returned label. The function is pure by construction: it takes the
  features and returns the result, with no state.
\<close>

theorem predict_total_distribution:
  "\<exists>intent probs confidence. predict features = Inr (intent, probs, confidence)
     \<and> map fst probs = INTENTS \<and> sum_list (map snd probs) = 1
     \<and> list_all (\<lambda>p. 0 < snd p) probs \<and> confidence = Max (snd ` set probs)
     \<and> map_of probs intent = Some confidence"
proof (cases "features = []")
  case True
  then show ?thesis by (simp add: predict_def INTENTS_def)
next
  case False
  from predict_nonempty_steps[OF False] obtain a b c d where
    nn: "0 \<le> a" "0 \<le> b" "0 \<le> c" "0 \<le> d" and
    pr: "predict features =
         (let t = a + b + c + d + 4 / 100;
              probs = [(''push'', (a + 1 / 100) / t), (''conserve'', (b + 1 / 100) / t),
                       (''prepare_pit'', (c + 1 / 100) / t), (''bluff'', (d + 1 / 100) / t)]
          in ebind (max_by_value probs) (\<lambda>intent.
               ebind (dict_item probs intent) (\<lambda>confidence. Inr (intent, probs, confidence))))"
    by blast
  define t where "t = a + b + c + d + 4 / 100"
  define probs where "probs = [(''push'', (a + 1 / 100) / t), (''conserve'', (b + 1 / 100) / t),
                       (''prepare_pit'', (c + 1 / 100) / t), (''bluff'', (d + 1 / 100) / t)]"
  have t: "0 < t" using nn by (simp add: t_def)
  have keys: "map fst probs = INTENTS" by (simp add: probs_def INTENTS_def)
  have "(a + 1 / 100) / t + ((b + 1 / 100) / t + ((c + 1 / 100) / t + (d + 1 / 100) / t))
       = (a + b + c + d + 4 / 100) / t"
    by (simp add: add_divide_distrib)
  also have "\<dots> = 1" using t by (simp add: t_def)
  finally have sum1: "sum_list (map snd probs) = 1" by (simp add: probs_def)
  have pos: "list_all (\<lambda>p. 0 < snd p) probs"
    using nn t by (simp add: probs_def)
  have ne: "probs \<noteq> []" by (simp add: probs_def)
  have dist: "distinct (map fst probs)" by (simp add: probs_def)
  from max_by_value_spec[OF ne dist] obtain i where i: "i < length probs"
    "max_by_value probs = Inr (fst (probs ! i))"
    "dict_item probs (fst (probs ! i)) = Inr (snd (probs ! i))"
    "\<forall>j<length probs. snd (probs ! j) \<le> snd (probs ! i)" by blast
  have p': "predict features = Inr (fst (probs ! i), probs, snd (probs ! i))"
    unfolding pr Let_def t_def[symmetric] probs_def[symmetric] by (simp add: i(2,3) ebind_def)
  have mx: "snd (probs ! i) = Max (snd ` set probs)"
    using Max_at_index[OF i(1) i(4)] by simp
  have mo: "map_of probs (fst (probs ! i)) = Some (snd (probs ! i))"
    using i(3) by (simp add: dict_item_def split: option.splits)
  show ?thesis using p' keys sum1 pos mx mo by blast
qed


lemma apply_rules_none:
  "list_all (\<lambda>(c, k, w). \<not> c) rs \<Longrightarrow> apply_rules rs sc = Inr sc"
  by (induction rs arbitrary: sc) auto

lemma predict_argmax_first:
  assumes "features \<noteq> []"
  shows "\<exists>intent probs confidence i. predict features = Inr (intent, probs, confidence)
     \<and> map fst probs = INTENTS \<and> i < length probs \<and> probs ! i = (intent, confidence)
     \<and> (\<forall>j<i. snd (probs ! j) < confidence)
     \<and> (\<forall>j<length probs. snd (probs ! j) \<le> confidence)"
proof -
  from predict_nonempty_steps[OF assms] obtain a b c d where
    pr: "predict features =
         (let t = a + b + c + d + 4 / 100;
              probs = [(''push'', (a + 1 / 100) / t), (''conserve'', (b + 1 / 100) / t),
                       (''prepare_pit'', (c + 1 / 100) / t), (''bluff'', (d + 1 / 100) / t)]
          in ebind (max_by_value probs) (\<lambda>intent.
               ebind (dict_item probs intent) (\<lambda>confidence. Inr (intent, probs, confidence))))"
    by blast
  define t where "t = a + b + c + d + 4 / 100"
  define probs where "probs = [(''push'', (a + 1 / 100) / t), (''conserve'', (b + 1 / 100) / t),
                       (''prepare_pit'', (c + 1 / 100) / t), (''bluff'', (d + 1 / 100) / t)]"
  have keys: "map fst probs = INTENTS" by (simp add: probs_def INTENTS_def)
  have ne: "probs \<noteq> []" by (simp add: probs_def)
  have dist: "distinct (map fst probs)" by (simp add: probs_def)
  from max_by_value_spec[OF ne dist] obtain i where i: "i < length probs"
    "max_by_value probs = Inr (fst (probs ! i))"
    "dict_item probs (fst (probs ! i)) = Inr (snd (probs ! i))"
    "\<forall>j<i. snd (probs ! j) < snd (probs ! i)"
    "\<forall>j<length probs. snd (probs ! j) \<le> snd (probs ! i)" by blast
  have p': "predict features = Inr (fst (probs ! i), probs, snd (probs ! i))"
    unfolding pr Let_def t_def[symmetric] probs_def[symmetric] by (simp add: i(2,3) ebind_def)
  have "probs ! i = (fst (probs ! i), snd (probs ! i))" by simp
  then show ?thesis using p' keys i(1,4,5) by blast
qed

lemma predict_no_rule:
  assumes ne: "features \<noteq> []" and nr: "no_rule_fires features"
  shows "apply_rules (rules features) (map (\<lambda>i. (i, 0)) INTENTS) = Inr (map (\<lambda>i. (i, 0)) INTENTS)"
    and "predict features =
     Inr (''push'',
          [(''push'', 1 / 4), (''conserve'', 1 / 4), (''prepare_pit'', 1 / 4), (''bluff'', 1 / 4)],
          1 / 4)"
proof -
  show ar: "apply_rules (rules features) (map (\<lambda>i. (i, 0)) INTENTS) = Inr (map (\<lambda>i. (i, 0)) INTENTS)"
    using nr by (simp add: no_rule_fires_def apply_rules_none)
  show "predict features =
     Inr (''push'',
          [(''push'', 1 / 4), (''conserve'', 1 / 4), (''prepare_pit'', 1 / 4), (''bluff'', 1 / 4)],
          1 / 4)"
    unfolding predict_def using ne
    by (simp add: ar[unfolded INTENTS_def, simplified] ebind_def normalise_def Let_def
        INTENTS_def dict_item_def)
qed

text \<open>
  C10. When the feature mapping is not empty and no rule's condition holds, the rules leave
  every score at zero, so after smoothing every score is the smoothing constant and
  \<^verbatim>\<open>predict\<close> returns the uniform distribution, 1/4 per label, with label push, the first
  label of the fixed order; on the empty mapping the label is conserve. On every non-empty
  mapping the returned label is the earliest one, in the order push, conserve, prepare\_pit,
  bluff, whose probability is maximal: every earlier label has a strictly smaller
  probability and no label a larger one.
\<close>

theorem predict_tie_break:
  "(features \<noteq> [] \<and> no_rule_fires features \<longrightarrow>
      apply_rules (rules features) (map (\<lambda>i. (i, 0)) INTENTS) = Inr (map (\<lambda>i. (i, 0)) INTENTS)
      \<and> predict features =
          Inr (''push'',
               [(''push'', 1 / 4), (''conserve'', 1 / 4), (''prepare_pit'', 1 / 4), (''bluff'', 1 / 4)],
               1 / 4))
   \<and> predict [] =
          Inr (''conserve'',
               [(''push'', 1 / 4), (''conserve'', 1 / 4), (''prepare_pit'', 1 / 4), (''bluff'', 1 / 4)],
               1 / 4)
   \<and> (features \<noteq> [] \<longrightarrow>
        (\<exists>intent probs confidence i. predict features = Inr (intent, probs, confidence)
           \<and> map fst probs = INTENTS \<and> i < length probs \<and> probs ! i = (intent, confidence)
           \<and> (\<forall>j<i. snd (probs ! j) < confidence)
           \<and> (\<forall>j<length probs. snd (probs ! j) \<le> confidence)))"
proof (intro conjI impI)
  assume h: "features \<noteq> [] \<and> no_rule_fires features"
  then show "apply_rules (rules features) (map (\<lambda>i. (i, 0)) INTENTS) = Inr (map (\<lambda>i. (i, 0)) INTENTS)"
    using predict_no_rule(1) by blast
  from h show "predict features =
          Inr (''push'',
               [(''push'', 1 / 4), (''conserve'', 1 / 4), (''prepare_pit'', 1 / 4), (''bluff'', 1 / 4)],
               1 / 4)"
    using predict_no_rule(2) by blast
next
  show "predict [] =
          Inr (''conserve'',
               [(''push'', 1 / 4), (''conserve'', 1 / 4), (''prepare_pit'', 1 / 4), (''bluff'', 1 / 4)],
               1 / 4)"
    by (simp add: predict_def INTENTS_def)
next
  assume "features \<noteq> []"
  then show "\<exists>intent probs confidence i. predict features = Inr (intent, probs, confidence)
           \<and> map fst probs = INTENTS \<and> i < length probs \<and> probs ! i = (intent, confidence)
           \<and> (\<forall>j<i. snd (probs ! j) < confidence)
           \<and> (\<forall>j<length probs. snd (probs ! j) \<le> confidence)"
    by (rule predict_argmax_first)
qed

theorem predict_tie_break_witness:
  "[(''speed_mean'', 30), (''lapprog_slope'', 1 / 2)] \<noteq> []
   \<and> no_rule_fires [(''speed_mean'', 30), (''lapprog_slope'', 1 / 2)]
   \<and> predict [(''speed_mean'', 30), (''lapprog_slope'', 1 / 2)] =
       Inr (''push'',
            [(''push'', 1 / 4), (''conserve'', 1 / 4), (''prepare_pit'', 1 / 4), (''bluff'', 1 / 4)],
            1 / 4)"
proof -
  have nr: "no_rule_fires [(''speed_mean'', 30), (''lapprog_slope'', 1 / 2)]"
    by (simp add: no_rule_fires_def rules_def feat_get_def Let_def)
  show ?thesis
    using nr predict_tie_break[of "[(''speed_mean'', 30), (''lapprog_slope'', 1 / 2)]"] by simp
qed

theorem predict_total_distribution_witness:
  "\<exists>intent probs confidence.
     predict [(''speed_mean'', 40), (''delta_speed'', 1), (''throttle_mean'', 50)]
       = Inr (intent, probs, confidence)
     \<and> map fst probs = INTENTS \<and> sum_list (map snd probs) = 1
     \<and> list_all (\<lambda>p. 0 < snd p) probs \<and> confidence = Max (snd ` set probs)
     \<and> map_of probs intent = Some confidence"
  by (rule predict_total_distribution)

section \<open>Properties of the rolling window\<close>

lemma deque_append_bounded:
  assumes "length (items d) \<le> maxlen d"
  shows "length (items (deque_append x d)) \<le> maxlen d" and "maxlen (deque_append x d) = maxlen d"
  using assms by (auto simp: deque_append_def)

lemma push_all_items:
  assumes "length (items (buf w)) \<le> maxlen (buf w)"
  shows "items (buf (foldl push w pkts))
           = drop (length (items (buf w) @ pkts) - maxlen (buf w)) (items (buf w) @ pkts)
         \<and> maxlen (buf (foldl push w pkts)) = maxlen (buf w)"
  using assms
proof (induction pkts arbitrary: w)
  case Nil
  then show ?case by simp
next
  case (Cons x xs)
  let ?d = "buf w"
  let ?w' = "push w x"
  have b: "length (items (buf ?w')) \<le> maxlen (buf ?w')" "maxlen (buf ?w') = maxlen ?d"
    using deque_append_bounded[OF Cons.prems, of x] by (simp_all add: push_def)
  have ih: "items (buf (foldl push ?w' xs))
           = drop (length (items (buf ?w') @ xs) - maxlen ?d) (items (buf ?w') @ xs)"
       "maxlen (buf (foldl push ?w' xs)) = maxlen ?d"
    using Cons.IH[OF b(1)] b(2) by simp_all
  have step: "drop (length (items (buf ?w') @ xs) - maxlen ?d) (items (buf ?w') @ xs)
      = drop (length (items ?d @ x # xs) - maxlen ?d) (items ?d @ x # xs)"
  proof (cases "maxlen ?d = 0")
    case True
    then show ?thesis using Cons.prems by (simp add: push_def deque_append_def)
  next
    case False
    show ?thesis
    proof (cases "length (items ?d) = maxlen ?d")
      case True
      then have ne: "items ?d \<noteq> []" using False by auto
      then obtain y ys where yys: "items ?d = y # ys" by (cases "items ?d") auto
      have "items (buf ?w') = ys @ [x]"
        using True False yys by (simp add: push_def deque_append_def)
      then show ?thesis using True yys by (simp add: Suc_diff_le)
    next
      case neq: False
      then have "items (buf ?w') = items ?d @ [x]"
        using False by (simp add: push_def deque_append_def)
      then show ?thesis by simp
    qed
  qed
  show ?case using ih step by simp
qed

text \<open>
  C7. A window of capacity 40 holds, after any sequence of pushes, the last 40 samples
  pushed (all of them when there were fewer), in push order; after 45 pushes it stores
  exactly 40 samples, the 40 most recent. A push into a window that is not full only adds
  the sample; a push into a full window drops the oldest sample and nothing else.
\<close>

theorem window_keeps_most_recent:
  "items (buf (foldl push (DriverWindow_init 40) pkts)) = drop (length pkts - 40) pkts
   \<and> (length pkts = 45 \<longrightarrow>
        items (buf (foldl push (DriverWindow_init 40) pkts)) = drop 5 pkts
        \<and> length (items (buf (foldl push (DriverWindow_init 40) pkts))) = 40)
   \<and> (maxlen (buf w) = 40 \<and> length (items (buf w)) \<le> 40 \<longrightarrow>
        items (buf (push w x))
          = (if length (items (buf w)) < 40 then items (buf w) @ [x]
             else tl (items (buf w)) @ [x]))"
proof -
  have g: "items (buf (foldl push (DriverWindow_init 40) pkts)) = drop (length pkts - 40) pkts"
    using push_all_items[of "DriverWindow_init 40" pkts] by (simp add: DriverWindow_init_def)
  have s: "maxlen (buf w) = 40 \<and> length (items (buf w)) \<le> 40 \<longrightarrow>
        items (buf (push w x))
          = (if length (items (buf w)) < 40 then items (buf w) @ [x]
             else tl (items (buf w)) @ [x])"
    by (auto simp: push_def deque_append_def)
  show ?thesis using g s by simp
qed

theorem window_keeps_most_recent_witness:
  "length [0..<45] = 45
   \<and> items (buf (foldl push (DriverWindow_init 40) [0..<45])) = [5..<45]
   \<and> length (items (buf (foldl push (DriverWindow_init 40) [0..<45]))) = 40"
proof -
  have l: "length [0..<45] = 45" by simp
  have d: "drop 5 [0..<45] = [5..<45]" by simp
  from window_keeps_most_recent[of "[0..<45]" "DriverWindow_init 40" 0]
  have "length [0..<45] = 45 \<longrightarrow>
        items (buf (foldl push (DriverWindow_init 40) [0..<45])) = drop 5 [0..<45]
        \<and> length (items (buf (foldl push (DriverWindow_init 40) [0..<45]))) = 40"
    by blast
  with l have "items (buf (foldl push (DriverWindow_init 40) [0..<45])) = drop 5 [0..<45]
        \<and> length (items (buf (foldl push (DriverWindow_init 40) [0..<45]))) = 40"
    by blast
  with l d show ?thesis by metis
qed

section \<open>Properties of the broadcast\<close>

lemma send_loop_result:
  "send_loop send m xs b =
     \<lparr>attempted = attempted b @ xs,
      delivered = delivered b @ filter (\<lambda>ws. send ws m) xs,
      to_remove = to_remove b @ filter (\<lambda>ws. \<not> send ws m) xs\<rparr>"
  by (induction xs arbitrary: b) auto

lemma remove_loop_result:
  assumes "distinct rs" "set rs \<subseteq> set clients"
  shows "remove_loop rs clients = Inr (filter (\<lambda>ws. ws \<notin> set rs) clients)"
  using assms
proof (induction rs arbitrary: clients)
  case Nil
  then show ?case by simp
next
  case (Cons r rs)
  have "set rs \<subseteq> set (removeAll r clients)" using Cons.prems by auto
  moreover have "distinct rs" using Cons.prems by simp
  ultimately have "remove_loop rs (removeAll r clients)
      = Inr (filter (\<lambda>ws. ws \<notin> set rs) (removeAll r clients))"
    by (rule Cons.IH[rotated])
  moreover have "filter (\<lambda>ws. ws \<notin> set rs) (removeAll r clients)
      = filter (\<lambda>ws. ws \<notin> set (r # rs)) clients"
    by (induction clients) auto
  ultimately show ?case using Cons.prems by simp
qed

text \<open>
  C9. For every set of registered handles and every message, \<^verbatim>\<open>broadcast_json\<close> returns
  without raising; it tries every handle that was registered when the call began, each
  once; the message reaches every handle whose send does not raise, whatever the other
  handles do; and the registry it leaves holds exactly the handles whose send did not
  raise, so every failing handle is gone when the call returns.
\<close>

theorem broadcast_json_prunes:
  assumes "distinct clients"
  shows "broadcast_json send message clients =
     Inr (filter (\<lambda>ws. send ws message) clients,
          \<lparr>attempted = clients,
           delivered = filter (\<lambda>ws. send ws message) clients,
           to_remove = filter (\<lambda>ws. \<not> send ws message) clients\<rparr>)"
proof -
  have d: "distinct (filter (\<lambda>ws. \<not> send ws message) clients)" using assms by simp
  have s: "set (filter (\<lambda>ws. \<not> send ws message) clients) \<subseteq> set clients" by auto
  have "filter (\<lambda>ws. ws \<notin> set (filter (\<lambda>ws. \<not> send ws message) clients)) clients
      = filter (\<lambda>ws. send ws message) clients"
    by (rule filter_cong) auto
  then show ?thesis
    by (simp add: broadcast_json_def send_loop_result remove_loop_result[OF d s] ebind_def)
qed

theorem broadcast_json_prunes_witness:
  "distinct [1, 2, 3 :: nat]
   \<and> broadcast_json (\<lambda>ws m. ws \<noteq> 2) () [1, 2, 3 :: nat] =
       Inr ([1, 3], \<lparr>attempted = [1, 2, 3], delivered = [1, 3], to_remove = [2]\<rparr>)"
proof -
  have h: "distinct [1, 2, 3 :: nat]" by simp
  show ?thesis
    using h broadcast_json_prunes[OF h, of "\<lambda>ws m. ws \<noteq> 2" "()"] by simp
qed

section \<open>Properties of the run identifiers\<close>

lemma mk_run_id_main_safe:
  assumes "truthy name"
  shows "\<exists>safe. mk_run_id_main isalnum name ts = safe @ ''_'' @ ts \<and> length safe \<le> 40
     \<and> list_all (\<lambda>c. isalnum c \<or> c = CHR ''-'' \<or> c = CHR ''_'') safe"
proof -
  let ?safe = "take 40 (map (\<lambda>c. if isalnum c \<or> c \<in> set ''-_'' then c else CHR ''_'') (the name))"
  have "\<forall>c\<in>set (map (\<lambda>c. if isalnum c \<or> c \<in> set ''-_'' then c else CHR ''_'') (the name)).
          isalnum c \<or> c = CHR ''-'' \<or> c = CHR ''_''"
    by auto
  then have "\<forall>c\<in>set ?safe. isalnum c \<or> c = CHR ''-'' \<or> c = CHR ''_''"
    by (meson in_set_takeD)
  then have l: "list_all (\<lambda>c. isalnum c \<or> c = CHR ''-'' \<or> c = CHR ''_'') ?safe"
    by (simp only: list_all_iff)
  have n: "length ?safe \<le> 40" by simp
  have e: "mk_run_id_main isalnum name ts = ?safe @ ''_'' @ ts"
    using assms by (simp add: mk_run_id_main_def Let_def)
  show ?thesis using l n e by blast
qed

lemma mk_run_id_no_name:
  "\<not> truthy name \<Longrightarrow> mk_run_id name ts = ''run_'' @ ts"
  "\<not> truthy name \<Longrightarrow> mk_run_id_main isalnum name ts = ''run_'' @ ts"
  by (simp_all add: mk_run_id_def mk_run_id_main_def)

text \<open>
  C8. The claim asks for the name sanitised to a safe identifier charset and truncated.
  \<^verbatim>\<open>mk_run_id\<close> of sim\_config\_api.py only replaces spaces: on the name \<^verbatim>\<open>a/b c\<close> the
  slash stays in the run id, and a name of 50 characters is kept whole, so the run id is
  50 + 1 + 16 characters long.
\<close>

theorem mk_run_id_keeps_unsafe:
  "mk_run_id (Some ''a/b c'') ''20250101T000000Z'' = ''a/b_c_20250101T000000Z''
   \<and> length (mk_run_id (Some (replicate 50 CHR ''x'')) ''20250101T000000Z'') = 67"
  by (simp add: mk_run_id_def truthy_def)

section \<open>Properties of starting a run\<close>

text \<open>
  C4, as the code has it. The configuration file of the new run is written first, whether
  or not a run is active. When that write raises, the call fails with its error and the
  current run id and the current replay record are as they were. When it succeeds and a
  run is active and the override flag is not given, the call fails with the conflict error
  409 and leaves the current run id and the current replay record as they were, the
  configuration file of the refused run staying on disk. Otherwise (no active run, or the
  override flag set) the new run id and a fresh replay record become current, and then the
  replay skeleton is written: when that write succeeds the call returns the run id and the
  path, and the files written are the configuration and the replay skeleton of the new run
  and no other, so the record of the run that is replaced is not written again; when it
  raises, the call fails with its error and the new run has replaced the old one all the
  same.
\<close>

theorem start_simulation_conflict_or_replace:
  "(let rid = mk_run_id (run_name config) ts;
        cpath = path_join REPLAY_DIR (rid @ ''_config.json'');
        rpath = path_join REPLAY_DIR (rid @ ''.json'');
        c = \<lparr>cfg = config, meta_created_at = created, meta_run_id = rid\<rparr>;
        rep = \<lparr>run_id = rid, replay_config = c, started_at = started,
               telemetry = [], intent_predictions = [], events = []\<rparr>;
        res = fst (start_simulation config force ts created started s);
        s' = snd (start_simulation config force ts created started s)
    in (\<forall>e. file_system s cpath = OpenRaises e \<longrightarrow>
          res = Inl e \<and> s' = s)
     \<and> (\<forall>e. file_system s cpath = DumpRaises e \<longrightarrow>
          res = Inl e \<and> s' = s\<lparr>disk := (disk s)(cpath \<mapsto> Partial)\<rparr>)
     \<and> (file_system s cpath = Written \<and> truthy (current_run_id s) \<and> \<not> force \<longrightarrow>
          res = Inl (HTTPException 409)
          \<and> s' = s\<lparr>disk := (disk s)(cpath \<mapsto> ConfigJson c)\<rparr>)
     \<and> (file_system s cpath = Written \<and> (force \<or> \<not> truthy (current_run_id s)) \<longrightarrow>
          current_run_id s' = Some rid
          \<and> current_replay s' = Some rep
          \<and> file_system s' = file_system s
          \<and> (case file_system s rpath of
                Written \<Rightarrow>
                  res = Inr (rid, rpath)
                  \<and> disk s' = (disk s)(cpath \<mapsto> ConfigJson c, rpath \<mapsto> ReplayJson rep)
              | OpenRaises e \<Rightarrow>
                  res = Inl e \<and> disk s' = (disk s)(cpath \<mapsto> ConfigJson c)
              | DumpRaises e \<Rightarrow>
                  res = Inl e \<and> disk s' = (disk s)(cpath \<mapsto> ConfigJson c, rpath \<mapsto> Partial)))
     \<and> ((\<exists>e. res = Inl e) \<and> truthy (current_run_id s) \<and> \<not> force \<longrightarrow>
          current_run_id s' = current_run_id s \<and> current_replay s' = current_replay s))"
  by (cases "file_system s (path_join REPLAY_DIR (mk_run_id (run_name config) ts @ ''_config.json''))";
      cases "file_system s (path_join REPLAY_DIR (mk_run_id (run_name config) ts @ ''.json''))")
     (auto simp: start_simulation_def save_config_file_def write_json_def Let_def)

text \<open>
  Where the claim as stated fails. A run \<^verbatim>\<open>old_T0\<close> is active; its replay record holds one
  telemetry entry that the file \<^verbatim>\<open>replays/old_T0.json\<close> does not have yet, and every write
  succeeds. Starting the run \<^verbatim>\<open>new\<close> without the override flag fails with 409, yet the
  configuration file of the refused run has been written. Starting it with the override
  flag succeeds, and the file of the replaced run still lacks the telemetry entry: the
  prior record was not flushed. And when the run name is \<^verbatim>\<open>a/b\<close> and there is no directory
  \<^verbatim>\<open>replays/a\<close>, so that opening the configuration file raises, starting it without the
  override flag fails with that error and not with the conflict error.
\<close>

theorem start_simulation_counterexample:
  "fst (start_simulation \<lparr>run_name = Some ''new'', settings = ()\<rparr> False ''T1'' ''T1'' ''T1''
      \<lparr>current_run_id = Some ''old_T0'',
       current_replay = Some \<lparr>run_id = ''old_T0'', replay_config = \<lparr>cfg = \<lparr>run_name = Some ''old'', settings = ()\<rparr>, meta_created_at = ''T0'', meta_run_id = ''old_T0''\<rparr>, started_at = ''T0'', telemetry = [7::nat], intent_predictions = [], events = []\<rparr>,
       disk = [''replays/old_T0.json'' \<mapsto> ReplayJson \<lparr>run_id = ''old_T0'', replay_config = \<lparr>cfg = \<lparr>run_name = Some ''old'', settings = ()\<rparr>, meta_created_at = ''T0'', meta_run_id = ''old_T0''\<rparr>, started_at = ''T0'', telemetry = [], intent_predictions = [], events = []\<rparr>],
       file_system = (\<lambda>p. Written)\<rparr>) = Inl (HTTPException 409)
   \<and> disk \<lparr>current_run_id = Some ''old_T0'',
       current_replay = Some \<lparr>run_id = ''old_T0'', replay_config = \<lparr>cfg = \<lparr>run_name = Some ''old'', settings = ()\<rparr>, meta_created_at = ''T0'', meta_run_id = ''old_T0''\<rparr>, started_at = ''T0'', telemetry = [7::nat], intent_predictions = [], events = []\<rparr>,
       disk = [''replays/old_T0.json'' \<mapsto> ReplayJson \<lparr>run_id = ''old_T0'', replay_config = \<lparr>cfg = \<lparr>run_name = Some ''old'', settings = ()\<rparr>, meta_created_at = ''T0'', meta_run_id = ''old_T0''\<rparr>, started_at = ''T0'', telemetry = [], intent_predictions = [], events = []\<rparr>],
       file_system = (\<lambda>p. Written)\<rparr> ''replays/new_T1_config.json'' = None
   \<and> disk (snd (start_simulation \<lparr>run_name = Some ''new'', settings = ()\<rparr> False ''T1'' ''T1'' ''T1''
      \<lparr>current_run_id = Some ''old_T0'',
       current_replay = Some \<lparr>run_id = ''old_T0'', replay_config = \<lparr>cfg = \<lparr>run_name = Some ''old'', settings = ()\<rparr>, meta_created_at = ''T0'', meta_run_id = ''old_T0''\<rparr>, started_at = ''T0'', telemetry = [7::nat], intent_predictions = [], events = []\<rparr>,
       disk = [''replays/old_T0.json'' \<mapsto> ReplayJson \<lparr>run_id = ''old_T0'', replay_config = \<lparr>cfg = \<lparr>run_name = Some ''old'', settings = ()\<rparr>, meta_created_at = ''T0'', meta_run_id = ''old_T0''\<rparr>, started_at = ''T0'', telemetry = [], intent_predictions = [], events = []\<rparr>],
       file_system = (\<lambda>p. Written)\<rparr>)) ''replays/new_T1_config.json''
       = Some (ConfigJson \<lparr>cfg = \<lparr>run_name = Some ''new'', settings = ()\<rparr>, meta_created_at = ''T1'', meta_run_id = ''new_T1''\<rparr>)
   \<and> fst (start_simulation \<lparr>run_name = Some ''new'', settings = ()\<rparr> True ''T1'' ''T1'' ''T1''
      \<lparr>current_run_id = Some ''old_T0'',
       current_replay = Some \<lparr>run_id = ''old_T0'', replay_config = \<lparr>cfg = \<lparr>run_name = Some ''old'', settings = ()\<rparr>, meta_created_at = ''T0'', meta_run_id = ''old_T0''\<rparr>, started_at = ''T0'', telemetry = [7::nat], intent_predictions = [], events = []\<rparr>,
       disk = [''replays/old_T0.json'' \<mapsto> ReplayJson \<lparr>run_id = ''old_T0'', replay_config = \<lparr>cfg = \<lparr>run_name = Some ''old'', settings = ()\<rparr>, meta_created_at = ''T0'', meta_run_id = ''old_T0''\<rparr>, started_at = ''T0'', telemetry = [], intent_predictions = [], events = []\<rparr>],
       file_system = (\<lambda>p. Written)\<rparr>) = Inr (''new_T1'', ''replays/new_T1.json'')
   \<and> current_run_id (snd (start_simulation \<lparr>run_name = Some ''new'', settings = ()\<rparr> True ''T1'' ''T1'' ''T1''
      \<lparr>current_run_id = Some ''old_T0'',
       current_replay = Some \<lparr>run_id = ''old_T0'', replay_config = \<lparr>cfg = \<lparr>run_name = Some ''old'', settings = ()\<rparr>, meta_created_at = ''T0'', meta_run_id = ''old_T0''\<rparr>, started_at = ''T0'', telemetry = [7::nat], intent_predictions = [], events = []\<rparr>,
       disk = [''replays/old_T0.json'' \<mapsto> ReplayJson \<lparr>run_id = ''old_T0'', replay_config = \<lparr>cfg = \<lparr>run_name = Some ''old'', settings = ()\<rparr>, meta_created_at = ''T0'', meta_run_id = ''old_T0''\<rparr>, started_at = ''T0'', telemetry = [], intent_predictions = [], events = []\<rparr>],
       file_system = (\<lambda>p. Written)\<rparr>)) = Some ''new_T1''
   \<and> disk (snd (start_simulation \<lparr>run_name = Some ''new'', settings = ()\<rparr> True ''T1'' ''T1'' ''T1''
      \<lparr>current_run_id = Some ''old_T0'',
       current_replay = Some \<lparr>run_id = ''old_T0'', replay_config = \<lparr>cfg = \<lparr>run_name = Some ''old'', settings = ()\<rparr>, meta_created_at = ''T0'', meta_run_id = ''old_T0''\<rparr>, started_at = ''T0'', telemetry = [7::nat], intent_predictions = [], events = []\<rparr>,
       disk = [''replays/old_T0.json'' \<mapsto> ReplayJson \<lparr>run_id = ''old_T0'', replay_config = \<lparr>cfg = \<lparr>run_name = Some ''old'', settings = ()\<rparr>, meta_created_at = ''T0'', meta_run_id = ''old_T0''\<rparr>, started_at = ''T0'', telemetry = [], intent_predictions = [], events = []\<rparr>],
       file_system = (\<lambda>p. Written)\<rparr>)) ''replays/old_T0.json''
       = Some (ReplayJson \<lparr>run_id = ''old_T0'', replay_config = \<lparr>cfg = \<lparr>run_name = Some ''old'', settings = ()\<rparr>, meta_created_at = ''T0'', meta_run_id = ''old_T0''\<rparr>, started_at = ''T0'', telemetry = [], intent_predictions = [], events = []\<rparr>)
   \<and> fst (start_simulation \<lparr>run_name = Some ''a/b'', settings = ()\<rparr> False ''T1'' ''T1'' ''T1''
      \<lparr>current_run_id = Some ''old_T0'',
       current_replay = Some \<lparr>run_id = ''old_T0'', replay_config = \<lparr>cfg = \<lparr>run_name = Some ''old'', settings = ()\<rparr>, meta_created_at = ''T0'', meta_run_id = ''old_T0''\<rparr>, started_at = ''T0'', telemetry = [7::nat], intent_predictions = [], events = []\<rparr>,
       disk = [''replays/old_T0.json'' \<mapsto> ReplayJson \<lparr>run_id = ''old_T0'', replay_config = \<lparr>cfg = \<lparr>run_name = Some ''old'', settings = ()\<rparr>, meta_created_at = ''T0'', meta_run_id = ''old_T0''\<rparr>, started_at = ''T0'', telemetry = [], intent_predictions = [], events = []\<rparr>],
       file_system = (\<lambda>p. if p = ''replays/a/b_T1_config.json'' then OpenRaises OSError else Written)\<rparr>) = Inl OSError"
  by (simp add: start_simulation_def save_config_file_def write_json_def mk_run_id_def truthy_def
      path_join_def REPLAY_DIR_def Let_def)

theorem start_simulation_conflict_or_replace_witness:
  "truthy (Some ''old_T0'')
   \<and> fst (start_simulation \<lparr>run_name = Some ''new'', settings = ()\<rparr> False ''T1'' ''T1'' ''T1''
      \<lparr>current_run_id = Some ''old_T0'',
       current_replay = Some \<lparr>run_id = ''old_T0'', replay_config = \<lparr>cfg = \<lparr>run_name = Some ''old'', settings = ()\<rparr>, meta_created_at = ''T0'', meta_run_id = ''old_T0''\<rparr>, started_at = ''T0'', telemetry = [7::nat], intent_predictions = [], events = []\<rparr>,
       disk = [''replays/old_T0.json'' \<mapsto> ReplayJson \<lparr>run_id = ''old_T0'', replay_config = \<lparr>cfg = \<lparr>run_name = Some ''old'', settings = ()\<rparr>, meta_created_at = ''T0'', meta_run_id = ''old_T0''\<rparr>, started_at = ''T0'', telemetry = [], intent_predictions = [], events = []\<rparr>],
       file_system = (\<lambda>p. Written)\<rparr>) = Inl (HTTPException 409)
   \<and> current_run_id (snd (start_simulation \<lparr>run_name = Some ''new'', settings = ()\<rparr> False ''T1'' ''T1'' ''T1''
      \<lparr>current_run_id = Some ''old_T0'',
       current_replay = Some \<lparr>run_id = ''old_T0'', replay_config = \<lparr>cfg = \<lparr>run_name = Some ''old'', settings = ()\<rparr>, meta_created_at = ''T0'', meta_run_id = ''old_T0''\<rparr>, started_at = ''T0'', telemetry = [7::nat], intent_predictions = [], events = []\<rparr>,
       disk = [''replays/old_T0.json'' \<mapsto> ReplayJson \<lparr>run_id = ''old_T0'', replay_config = \<lparr>cfg = \<lparr>run_name = Some ''old'', settings = ()\<rparr>, meta_created_at = ''T0'', meta_run_id = ''old_T0''\<rparr>, started_at = ''T0'', telemetry = [], intent_predictions = [], events = []\<rparr>],
       file_system = (\<lambda>p. Written)\<rparr>)) = Some ''old_T0''
   \<and> current_replay (snd (start_simulation \<lparr>run_name = Some ''new'', settings = ()\<rparr> False ''T1'' ''T1'' ''T1''
      \<lparr>current_run_id = Some ''old_T0'',
       current_replay = Some \<lparr>run_id = ''old_T0'', replay_config = \<lparr>cfg = \<lparr>run_name = Some ''old'', settings = ()\<rparr>, meta_created_at = ''T0'', meta_run_id = ''old_T0''\<rparr>, started_at = ''T0'', telemetry = [7::nat], intent_predictions = [], events = []\<rparr>,
       disk = [''replays/old_T0.json'' \<mapsto> ReplayJson \<lparr>run_id = ''old_T0'', replay_config = \<lparr>cfg = \<lparr>run_name = Some ''old'', settings = ()\<rparr>, meta_created_at = ''T0'', meta_run_id = ''old_T0''\<rparr>, started_at = ''T0'', telemetry = [], intent_predictions = [], events = []\<rparr>],
       file_system = (\<lambda>p. Written)\<rparr>)) = Some \<lparr>run_id = ''old_T0'', replay_config = \<lparr>cfg = \<lparr>run_name = Some ''old'', settings = ()\<rparr>, meta_created_at = ''T0'', meta_run_id = ''old_T0''\<rparr>, started_at = ''T0'', telemetry = [7], intent_predictions = [], events = []\<rparr>
   \<and> fst (start_simulation \<lparr>run_name = Some ''new'', settings = ()\<rparr> True ''T1'' ''T1'' ''T1''
      \<lparr>current_run_id = Some ''old_T0'',
       current_replay = Some \<lparr>run_id = ''old_T0'', replay_config = \<lparr>cfg = \<lparr>run_name = Some ''old'', settings = ()\<rparr>, meta_created_at = ''T0'', meta_run_id = ''old_T0''\<rparr>, started_at = ''T0'', telemetry = [7::nat], intent_predictions = [], events = []\<rparr>,
       disk = [''replays/old_T0.json'' \<mapsto> ReplayJson \<lparr>run_id = ''old_T0'', replay_config = \<lparr>cfg = \<lparr>run_name = Some ''old'', settings = ()\<rparr>, meta_created_at = ''T0'', meta_run_id = ''old_T0''\<rparr>, started_at = ''T0'', telemetry = [], intent_predictions = [], events = []\<rparr>],
       file_system = (\<lambda>p. Written)\<rparr>) = Inr (''new_T1'', ''replays/new_T1.json'')
   \<and> current_run_id (snd (start_simulation \<lparr>run_name = Some ''new'', settings = ()\<rparr> True ''T1'' ''T1'' ''T1''
      \<lparr>current_run_id = Some ''old_T0'',
       current_replay = Some \<lparr>run_id = ''old_T0'', replay_config = \<lparr>cfg = \<lparr>run_name = Some ''old'', settings = ()\<rparr>, meta_created_at = ''T0'', meta_run_id = ''old_T0''\<rparr>, started_at = ''T0'', telemetry = [7::nat], intent_predictions = [], events = []\<rparr>,
       disk = [''replays/old_T0.json'' \<mapsto> ReplayJson \<lparr>run_id = ''old_T0'', replay_config = \<lparr>cfg = \<lparr>run_name = Some ''old'', settings = ()\<rparr>, meta_created_at = ''T0'', meta_run_id = ''old_T0''\<rparr>, started_at = ''T0'', telemetry = [], intent_predictions = [], events = []\<rparr>],
       file_system = (\<lambda>p. Written)\<rparr>)) = Some ''new_T1''
   \<and> current_replay (snd (start_simulation \<lparr>run_name = Some ''new'', settings = ()\<rparr> True ''T1'' ''T1'' ''T1''
      \<lparr>current_run_id = Some ''old_T0'',
       current_replay = Some \<lparr>run_id = ''old_T0'', replay_config = \<lparr>cfg = \<lparr>run_name = Some ''old'', settings = ()\<rparr>, meta_created_at = ''T0'', meta_run_id = ''old_T0''\<rparr>, started_at = ''T0'', telemetry = [7::nat], intent_predictions = [], events = []\<rparr>,
       disk = [''replays/old_T0.json'' \<mapsto> ReplayJson \<lparr>run_id = ''old_T0'', replay_config = \<lparr>cfg = \<lparr>run_name = Some ''old'', settings = ()\<rparr>, meta_created_at = ''T0'', meta_run_id = ''old_T0''\<rparr>, started_at = ''T0'', telemetry = [], intent_predictions = [], events = []\<rparr>],
       file_system = (\<lambda>p. Written)\<rparr>)) = Some \<lparr>run_id = ''new_T1'', replay_config = \<lparr>cfg = \<lparr>run_name = Some ''new'', settings = ()\<rparr>, meta_created_at = ''T1'', meta_run_id = ''new_T1''\<rparr>, started_at = ''T1'', telemetry = [], intent_predictions = [], events = []\<rparr>
   \<and> fst (start_simulation \<lparr>run_name = Some ''a/b'', settings = ()\<rparr> False ''T1'' ''T1'' ''T1''
      \<lparr>current_run_id = Some ''old_T0'',
       current_replay = Some \<lparr>run_id = ''old_T0'', replay_config = \<lparr>cfg = \<lparr>run_name = Some ''old'', settings = ()\<rparr>, meta_created_at = ''T0'', meta_run_id = ''old_T0''\<rparr>, started_at = ''T0'', telemetry = [7::nat], intent_predictions = [], events = []\<rparr>,
       disk = [''replays/old_T0.json'' \<mapsto> ReplayJson \<lparr>run_id = ''old_T0'', replay_config = \<lparr>cfg = \<lparr>run_name = Some ''old'', settings = ()\<rparr>, meta_created_at = ''T0'', meta_run_id = ''old_T0''\<rparr>, started_at = ''T0'', telemetry = [], intent_predictions = [], events = []\<rparr>],
       file_system = (\<lambda>p. if p = ''replays/a/b_T1_config.json'' then OpenRaises OSError else Written)\<rparr>) = Inl OSError
   \<and> snd (start_simulation \<lparr>run_name = Some ''a/b'', settings = ()\<rparr> False ''T1'' ''T1'' ''T1''
      \<lparr>current_run_id = Some ''old_T0'',
       current_replay = Some \<lparr>run_id = ''old_T0'', replay_config = \<lparr>cfg = \<lparr>run_name = Some ''old'', settings = ()\<rparr>, meta_created_at = ''T0'', meta_run_id = ''old_T0''\<rparr>, started_at = ''T0'', telemetry = [7::nat], intent_predictions = [], events = []\<rparr>,
       disk = [''replays/old_T0.json'' \<mapsto> ReplayJson \<lparr>run_id = ''old_T0'', replay_config = \<lparr>cfg = \<lparr>run_name = Some ''old'', settings = ()\<rparr>, meta_created_at = ''T0'', meta_run_id = ''old_T0''\<rparr>, started_at = ''T0'', telemetry = [], intent_predictions = [], events = []\<rparr>],
       file_system = (\<lambda>p. if p = ''replays/a/b_T1_config.json'' then OpenRaises OSError else Written)\<rparr>) = \<lparr>current_run_id = Some ''old_T0'',
       current_replay = Some \<lparr>run_id = ''old_T0'', replay_config = \<lparr>cfg = \<lparr>run_name = Some ''old'', settings = ()\<rparr>, meta_created_at = ''T0'', meta_run_id = ''old_T0''\<rparr>, started_at = ''T0'', telemetry = [7::nat], intent_predictions = [], events = []\<rparr>,
       disk = [''replays/old_T0.json'' \<mapsto> ReplayJson \<lparr>run_id = ''old_T0'', replay_config = \<lparr>cfg = \<lparr>run_name = Some ''old'', settings = ()\<rparr>, meta_created_at = ''T0'', meta_run_id = ''old_T0''\<rparr>, started_at = ''T0'', telemetry = [], intent_predictions = [], events = []\<rparr>],
       file_system = (\<lambda>p. if p = ''replays/a/b_T1_config.json'' then OpenRaises OSError else Written)\<rparr>
   \<and> fst (start_simulation \<lparr>run_name = Some ''new'', settings = ()\<rparr> True ''T1'' ''T1'' ''T1''
      \<lparr>current_run_id = Some ''old_T0'',
       current_replay = Some \<lparr>run_id = ''old_T0'', replay_config = \<lparr>cfg = \<lparr>run_name = Some ''old'', settings = ()\<rparr>, meta_created_at = ''T0'', meta_run_id = ''old_T0''\<rparr>, started_at = ''T0'', telemetry = [7::nat], intent_predictions = [], events = []\<rparr>,
       disk = [''replays/old_T0.json'' \<mapsto> ReplayJson \<lparr>run_id = ''old_T0'', replay_config = \<lparr>cfg = \<lparr>run_name = Some ''old'', settings = ()\<rparr>, meta_created_at = ''T0'', meta_run_id = ''old_T0''\<rparr>, started_at = ''T0'', telemetry = [], intent_predictions = [], events = []\<rparr>],
       file_system = (\<lambda>p. if p = ''replays/new_T1.json'' then DumpRaises OSError else Written)\<rparr>) = Inl OSError
   \<and> current_run_id (snd (start_simulation \<lparr>run_name = Some ''new'', settings = ()\<rparr> True ''T1'' ''T1'' ''T1''
      \<lparr>current_run_id = Some ''old_T0'',
       current_replay = Some \<lparr>run_id = ''old_T0'', replay_config = \<lparr>cfg = \<lparr>run_name = Some ''old'', settings = ()\<rparr>, meta_created_at = ''T0'', meta_run_id = ''old_T0''\<rparr>, started_at = ''T0'', telemetry = [7::nat], intent_predictions = [], events = []\<rparr>,
       disk = [''replays/old_T0.json'' \<mapsto> ReplayJson \<lparr>run_id = ''old_T0'', replay_config = \<lparr>cfg = \<lparr>run_name = Some ''old'', settings = ()\<rparr>, meta_created_at = ''T0'', meta_run_id = ''old_T0''\<rparr>, started_at = ''T0'', telemetry = [], intent_predictions = [], events = []\<rparr>],
       file_system = (\<lambda>p. if p = ''replays/new_T1.json'' then DumpRaises OSError else Written)\<rparr>)) = Some ''new_T1''"
  using start_simulation_conflict_or_replace[where config = "\<lparr>run_name = Some ''new'', settings = ()\<rparr>" and s = "\<lparr>current_run_id = Some ''old_T0'',
       current_replay = Some \<lparr>run_id = ''old_T0'', replay_config = \<lparr>cfg = \<lparr>run_name = Some ''old'', settings = ()\<rparr>, meta_created_at = ''T0'', meta_run_id = ''old_T0''\<rparr>, started_at = ''T0'', telemetry = [7::nat], intent_predictions = [], events = []\<rparr>,
       disk = [''replays/old_T0.json'' \<mapsto> ReplayJson \<lparr>run_id = ''old_T0'', replay_config = \<lparr>cfg = \<lparr>run_name = Some ''old'', settings = ()\<rparr>, meta_created_at = ''T0'', meta_run_id = ''old_T0''\<rparr>, started_at = ''T0'', telemetry = [], intent_predictions = [], events = []\<rparr>],
       file_system = (\<lambda>p. Written)\<rparr>" and force = False and ts = "''T1''" and created = "''T1''" and started = "''T1''"]
    start_simulation_conflict_or_replace[where config = "\<lparr>run_name = Some ''new'', settings = ()\<rparr>" and s = "\<lparr>current_run_id = Some ''old_T0'',
       current_replay = Some \<lparr>run_id = ''old_T0'', replay_config = \<lparr>cfg = \<lparr>run_name = Some ''old'', settings = ()\<rparr>, meta_created_at = ''T0'', meta_run_id = ''old_T0''\<rparr>, started_at = ''T0'', telemetry = [7::nat], intent_predictions = [], events = []\<rparr>,
       disk = [''replays/old_T0.json'' \<mapsto> ReplayJson \<lparr>run_id = ''old_T0'', replay_config = \<lparr>cfg = \<lparr>run_name = Some ''old'', settings = ()\<rparr>, meta_created_at = ''T0'', meta_run_id = ''old_T0''\<rparr>, started_at = ''T0'', telemetry = [], intent_predictions = [], events = []\<rparr>],
       file_system = (\<lambda>p. Written)\<rparr>" and force = True and ts = "''T1''" and created = "''T1''" and started = "''T1''"]
    start_simulation_conflict_or_replace[where config = "\<lparr>run_name = Some ''a/b'', settings = ()\<rparr>" and s = "\<lparr>current_run_id = Some ''old_T0'',
       current_replay = Some \<lparr>run_id = ''old_T0'', replay_config = \<lparr>cfg = \<lparr>run_name = Some ''old'', settings = ()\<rparr>, meta_created_at = ''T0'', meta_run_id = ''old_T0''\<rparr>, started_at = ''T0'', telemetry = [7::nat], intent_predictions = [], events = []\<rparr>,
       disk = [''replays/old_T0.json'' \<mapsto> ReplayJson \<lparr>run_id = ''old_T0'', replay_config = \<lparr>cfg = \<lparr>run_name = Some ''old'', settings = ()\<rparr>, meta_created_at = ''T0'', meta_run_id = ''old_T0''\<rparr>, started_at = ''T0'', telemetry = [], intent_predictions = [], events = []\<rparr>],
       file_system = (\<lambda>p. if p = ''replays/a/b_T1_config.json'' then OpenRaises OSError else Written)\<rparr>" and force = False and ts = "''T1''" and created = "''T1''" and started = "''T1''"]
    start_simulation_conflict_or_replace[where config = "\<lparr>run_name = Some ''new'', settings = ()\<rparr>" and s = "\<lparr>current_run_id = Some ''old_T0'',
       current_replay = Some \<lparr>run_id = ''old_T0'', replay_config = \<lparr>cfg = \<lparr>run_name = Some ''old'', settings = ()\<rparr>, meta_created_at = ''T0'', meta_run_id = ''old_T0''\<rparr>, started_at = ''T0'', telemetry = [7::nat], intent_predictions = [], events = []\<rparr>,
       disk = [''replays/old_T0.json'' \<mapsto> ReplayJson \<lparr>run_id = ''old_T0'', replay_config = \<lparr>cfg = \<lparr>run_name = Some ''old'', settings = ()\<rparr>, meta_created_at = ''T0'', meta_run_id = ''old_T0''\<rparr>, started_at = ''T0'', telemetry = [], intent_predictions = [], events = []\<rparr>],
       file_system = (\<lambda>p. if p = ''replays/new_T1.json'' then DumpRaises OSError else Written)\<rparr>" and force = True and ts = "''T1''" and created = "''T1''" and started = "''T1''"]
  by (simp add: truthy_def mk_run_id_def path_join_def REPLAY_DIR_def Let_def)

section \<open>Properties of the leaderboard\<close>

lemma keys_of_all:
  assumes "list_all (\<lambda>x. \<not> isl (f x)) xs"
  shows "keys_of f xs = Inr (map (\<lambda>x. projr (f x)) xs)"
  using assms
proof (induction xs)
  case Nil
  then show ?case by simp
next
  case (Cons x xs)
  from Cons.prems obtain k where k: "f x = Inr k" by (cases "f x") auto
  from Cons have "keys_of f xs = Inr (map (\<lambda>x. projr (f x)) xs)" by simp
  then show ?case using k by (simp add: ebind_def)
qed

lemma those_map_all:
  assumes "list_all (\<lambda>x. g x \<noteq> None) xs"
  shows "those (map g xs) = Some (map (\<lambda>x. the (g x)) xs)"
  using assms by (induction xs) auto

lemma insort_decorated:
  "insort_key fst (k x, x) (map (\<lambda>y. (k y, y)) ys) = map (\<lambda>y. (k y, y)) (insort_key k x ys)"
  by (induction ys) auto

lemma sort_decorated:
  "sort_key fst (map (\<lambda>y. (k y, y)) xs) = map (\<lambda>y. (k y, y)) (sort_key k xs)"
  by (induction xs) (auto simp: insort_decorated)

lemma zip_decorated: "zip (map k xs) xs = map (\<lambda>y. (k y, y)) xs"
  by (induction xs) auto

lemma key_of_Some:
  assumes "key_of py d \<noteq> None"
  shows "\<not> isl (sort_key_of py d)"
    and "ordered_key (projr (sort_key_of py d)) = key_of py d"
  using assms by (auto simp: key_of_def split: sum.splits)

lemma list_sort_stable:
  assumes "list_all (\<lambda>d. key_of py d \<noteq> None) xs"
  shows "list_sort py (sort_key_of py) xs = Inr (sort_key (\<lambda>d. the (key_of py d)) xs)"
proof -
  have a: "list_all (\<lambda>d. \<not> isl (sort_key_of py d)) xs"
    using assms key_of_Some(1) by (auto simp: list_all_iff)
  have b: "map (ordered_key \<circ> (\<lambda>d. projr (sort_key_of py d))) xs = map (key_of py) xs"
    using assms key_of_Some(2) by (auto simp: list_all_iff)
  have c: "those (map (key_of py) xs) = Some (map (\<lambda>d. the (key_of py d)) xs)"
    using assms by (rule those_map_all)
  have "map snd (sort_key fst (zip (map (\<lambda>d. the (key_of py d)) xs) xs))
          = sort_key (\<lambda>d. the (key_of py d)) xs"
    by (simp add: zip_decorated sort_decorated comp_def)
  then show ?thesis
    by (simp add: list_sort_def keys_of_all[OF a] ebind_def b c)
qed

lemma recompute_leaderboard_sorted:
  assumes "list_all (\<lambda>d. key_of py d \<noteq> None) (map snd driver_states)"
  shows "recompute_leaderboard py driver_states =
     Inr (map (\<lambda>(idx, d). dict_set ''rank'' (PInt (int idx)) d)
            (enumerate 1 (take 20 (sort_key (\<lambda>d. the (key_of py d))
                                      (map snd driver_states)))))"
  by (simp add: recompute_leaderboard_def list_sort_stable[OF assms] ebind_def
      MAX_LEADERBOARD_def)

lemma ordered_key_Some:
  "ordered_key k = Some (k1, k2, t, b) \<Longrightarrow> k = (k1, k2, Num t, Num b)"
  by (cases k rule: ordered_key.cases) auto

lemma key_of_components:
  assumes "key_of py d = Some (k1, k2, t, b)"
  shows "(case map_of d ''completed_laps'' of
            None \<Rightarrow> k1 = 0 | Some v \<Rightarrow> py_int py v = Inr (- k1))
       \<and> (case map_of d ''position'' of
            None \<Rightarrow> k2 = 9999 | Some v \<Rightarrow> py_int py v = Inr k2)
       \<and> (case map_of d ''total_time'' of
            None \<Rightarrow> t = PosInf | Some v \<Rightarrow> py_float py v = Inr (Num t))
       \<and> (case map_of d ''best_lap'' of
            None \<Rightarrow> b = PosInf | Some v \<Rightarrow> py_float py v = Inr (Num b))"
proof -
  from assms obtain k where k: "sort_key_of py d = Inr k" and o: "ordered_key k = Some (k1, k2, t, b)"
    by (auto simp: key_of_def split: sum.splits)
  from o have "k = (k1, k2, Num t, Num b)" by (rule ordered_key_Some)
  with k have "sort_key_of py d = Inr (k1, k2, Num t, Num b)" by simp
  then show ?thesis
    by (auto simp: sort_key_of_def ebind_def dict_get_def split: sum.splits option.splits)
qed

text \<open>An int of more than 53 bits is not a float: \<^verbatim>\<open>float(2**53 + 1) == float(2**53)\<close>.\<close>

lemma bit_length_eq:
  "2 ^ k \<le> n \<Longrightarrow> n < 2 ^ Suc k \<Longrightarrow> bit_length n = Suc k"
proof (induction k arbitrary: n)
  case 0
  then have "n = 1" by simp
  then show ?case by (simp add: bit_length.simps[of "Suc 0"] bit_length.simps[of 0])
next
  case (Suc k)
  have "2 ^ k \<le> n div 2" using Suc.prems(1) by simp
  moreover have "n div 2 < 2 ^ Suc k" using Suc.prems(2) by simp
  ultimately have "bit_length (n div 2) = Suc k" by (rule Suc.IH)
  moreover have "(0::nat) < 2 ^ Suc k" by simp
  then have "n \<noteq> 0" using Suc.prems(1) by linarith
  ultimately show ?case by (simp add: bit_length.simps[of n])
qed

lemma bit_length_example: "bit_length 9007199254740993 = 54"
  using bit_length_eq[of 53 9007199254740993] by simp

lemma py_float_rounds:
  "py_float py (PInt (2 ^ 53 + 1)) = Inr (Num (Fin (2 ^ 53)))"
  by (simp add: round_to_double_def bit_length_example Let_def)

text \<open>
  C1, as the code has it. Take a collection of driver snapshots in which every snapshot
  has a key: no \<^verbatim>\<open>int()\<close> or \<^verbatim>\<open>float()\<close> of the sort key raises and no \<^verbatim>\<open>float()\<close> gives NaN.
  The key of a snapshot is the tuple of minus \<^verbatim>\<open>int\<close> of completed\_laps (0 when the field
  is missing), \<^verbatim>\<open>int\<close> of position (9999 when missing), \<^verbatim>\<open>float\<close> of total\_time and
  \<^verbatim>\<open>float\<close> of best\_lap (each \<open>+\<infinity>\<close> when missing), compared lexicographically. Then the
  leaderboard is computed from a list \<open>srt\<close> that is a rearrangement of the snapshots, in
  encounter order of the dict, ascending in the key and stable: snapshots of equal key
  keep their encounter order. The leaderboard has the first 20 entries of \<open>srt\<close> (all of
  them when there are fewer), entry \<open>i\<close> (from 0) being snapshot \<open>i\<close> of \<open>srt\<close> with the
  field rank set to \<open>i + 1\<close>. In particular car\_01 and car\_02, both with completed\_laps
  3, car\_02 at position 1 and car\_01 at position 2, are ranked car\_02 first with rank 1
  and car\_01 second with rank 2.
\<close>

theorem leaderboard_sorted_top20:
  assumes "list_all (\<lambda>d. key_of py d \<noteq> None) (map snd driver_states)"
  shows "\<exists>srt lb. recompute_leaderboard py driver_states = Inr lb
     \<and> list_all (\<lambda>d. (case the (key_of py d) of (k1, k2, t, b) \<Rightarrow>
                       (case map_of d ''completed_laps'' of
                          None \<Rightarrow> k1 = 0 | Some v \<Rightarrow> py_int py v = Inr (- k1))
                     \<and> (case map_of d ''position'' of
                          None \<Rightarrow> k2 = 9999 | Some v \<Rightarrow> py_int py v = Inr k2)
                     \<and> (case map_of d ''total_time'' of
                          None \<Rightarrow> t = PosInf | Some v \<Rightarrow> py_float py v = Inr (Num t))
                     \<and> (case map_of d ''best_lap'' of
                          None \<Rightarrow> b = PosInf | Some v \<Rightarrow> py_float py v = Inr (Num b))))
         (map snd driver_states)
     \<and> mset srt = mset (map snd driver_states)
     \<and> sorted (map (\<lambda>d. the (key_of py d)) srt)
     \<and> (\<forall>k. filter (\<lambda>d. the (key_of py d) = k) srt
            = filter (\<lambda>d. the (key_of py d) = k) (map snd driver_states))
     \<and> length lb = min 20 (length driver_states)
     \<and> (\<forall>i<length lb. lb ! i = dict_set ''rank'' (PInt (int i + 1)) (srt ! i))
     \<and> recompute_leaderboard py
          [(''car_01'', [(''driver_id'', PStr ''car_01''), (''completed_laps'', PInt 3),
                         (''position'', PInt 2)]),
           (''car_02'', [(''driver_id'', PStr ''car_02''), (''completed_laps'', PInt 3),
                         (''position'', PInt 1)])]
        = Inr [[(''driver_id'', PStr ''car_02''), (''completed_laps'', PInt 3),
                (''position'', PInt 1), (''rank'', PInt 1)],
               [(''driver_id'', PStr ''car_01''), (''completed_laps'', PInt 3),
                (''position'', PInt 2), (''rank'', PInt 2)]]"
proof -
  define key where "key = (\<lambda>d. the (key_of py d))"
  define srt where "srt = sort_key key (map snd driver_states)"
  define lb where "lb = map (\<lambda>(idx, d). dict_set ''rank'' (PInt (int idx)) d)
                          (enumerate 1 (take 20 srt))"
  have r: "recompute_leaderboard py driver_states = Inr lb"
    using recompute_leaderboard_sorted[OF assms] by (simp add: lb_def srt_def key_def)
  have c: "list_all (\<lambda>d. (case the (key_of py d) of (k1, k2, t, b) \<Rightarrow>
                       (case map_of d ''completed_laps'' of
                          None \<Rightarrow> k1 = 0 | Some v \<Rightarrow> py_int py v = Inr (- k1))
                     \<and> (case map_of d ''position'' of
                          None \<Rightarrow> k2 = 9999 | Some v \<Rightarrow> py_int py v = Inr k2)
                     \<and> (case map_of d ''total_time'' of
                          None \<Rightarrow> t = PosInf | Some v \<Rightarrow> py_float py v = Inr (Num t))
                     \<and> (case map_of d ''best_lap'' of
                          None \<Rightarrow> b = PosInf | Some v \<Rightarrow> py_float py v = Inr (Num b))))
         (map snd driver_states)"
    unfolding list_all_iff
  proof
    fix d assume "d \<in> set (map snd driver_states)"
    then have "key_of py d \<noteq> None" using assms by (auto simp: list_all_iff)
    then obtain k1 k2 t b where k: "key_of py d = Some (k1, k2, t, b)"
      by (cases "key_of py d") auto
    show "(case the (key_of py d) of (k1, k2, t, b) \<Rightarrow>
                       (case map_of d ''completed_laps'' of
                          None \<Rightarrow> k1 = 0 | Some v \<Rightarrow> py_int py v = Inr (- k1))
                     \<and> (case map_of d ''position'' of
                          None \<Rightarrow> k2 = 9999 | Some v \<Rightarrow> py_int py v = Inr k2)
                     \<and> (case map_of d ''total_time'' of
                          None \<Rightarrow> t = PosInf | Some v \<Rightarrow> py_float py v = Inr (Num t))
                     \<and> (case map_of d ''best_lap'' of
                          None \<Rightarrow> b = PosInf | Some v \<Rightarrow> py_float py v = Inr (Num b)))"
      using key_of_components[OF k] k by simp
  qed
  have m: "mset srt = mset (map snd driver_states)" by (simp add: srt_def)
  have s: "sorted (map key srt)" by (simp add: srt_def)
  have st: "\<forall>k. filter (\<lambda>d. key d = k) srt = filter (\<lambda>d. key d = k) (map snd driver_states)"
    by (simp add: srt_def sort_key_stable)
  have ls: "length srt = length driver_states" by (simp add: srt_def)
  have l: "length lb = min 20 (length driver_states)"
    by (simp add: lb_def ls min.commute)
  have n: "\<forall>i<length lb. lb ! i = dict_set ''rank'' (PInt (int i + 1)) (srt ! i)"
  proof (intro allI impI)
    fix i assume i: "i < length lb"
    then have i': "i < length (take 20 srt)" by (simp add: lb_def)
    then have "enumerate 1 (take 20 srt) ! i = (1 + i, take 20 srt ! i)"
      by (rule nth_enumerate_eq)
    moreover have "take 20 srt ! i = srt ! i" using i' by simp
    ultimately show "lb ! i = dict_set ''rank'' (PInt (int i + 1)) (srt ! i)"
      using i' by (simp add: lb_def add.commute)
  qed
  have ex: "recompute_leaderboard py
          [(''car_01'', [(''driver_id'', PStr ''car_01''), (''completed_laps'', PInt 3),
                         (''position'', PInt 2)]),
           (''car_02'', [(''driver_id'', PStr ''car_02''), (''completed_laps'', PInt 3),
                         (''position'', PInt 1)])]
        = Inr [[(''driver_id'', PStr ''car_02''), (''completed_laps'', PInt 3),
                (''position'', PInt 1), (''rank'', PInt 1)],
               [(''driver_id'', PStr ''car_01''), (''completed_laps'', PInt 3),
                (''position'', PInt 2), (''rank'', PInt 2)]]"
    by (simp add: recompute_leaderboard_def list_sort_def sort_key_of_def ebind_def
        dict_get_def MAX_LEADERBOARD_def enumerate_eq_zip)
  show ?thesis
    using r c m s st l n ex unfolding key_def by blast
qed

theorem leaderboard_sorted_top20_witness:
  "\<forall>py. list_all (\<lambda>d. key_of py d \<noteq> None)
          (map snd [(''car_01'', [(''driver_id'', PStr ''car_01''), (''completed_laps'', PInt 3),
                         (''position'', PInt 2)]),
           (''car_02'', [(''driver_id'', PStr ''car_02''), (''completed_laps'', PInt 3),
                         (''position'', PInt 1)])])
     \<and> (\<exists>lb. recompute_leaderboard py
            [(''car_01'', [(''driver_id'', PStr ''car_01''), (''completed_laps'', PInt 3),
                         (''position'', PInt 2)]),
           (''car_02'', [(''driver_id'', PStr ''car_02''), (''completed_laps'', PInt 3),
                         (''position'', PInt 1)])] = Inr lb
          \<and> length lb = 2)"
proof (intro allI)
  fix py
  have h: "list_all (\<lambda>d. key_of py d \<noteq> None)
          (map snd [(''car_01'', [(''driver_id'', PStr ''car_01''), (''completed_laps'', PInt 3),
                         (''position'', PInt 2)]),
           (''car_02'', [(''driver_id'', PStr ''car_02''), (''completed_laps'', PInt 3),
                         (''position'', PInt 1)])])"
    by (simp add: key_of_def sort_key_of_def ebind_def dict_get_def)
  from leaderboard_sorted_top20[OF h] obtain lb where
    "recompute_leaderboard py
            [(''car_01'', [(''driver_id'', PStr ''car_01''), (''completed_laps'', PInt 3),
                         (''position'', PInt 2)]),
           (''car_02'', [(''driver_id'', PStr ''car_02''), (''completed_laps'', PInt 3),
                         (''position'', PInt 1)])] = Inr lb"
    "length lb = min 20 (length [(''car_01'', [(''driver_id'', PStr ''car_01''), (''completed_laps'', PInt 3),
                         (''position'', PInt 2)]),
           (''car_02'', [(''driver_id'', PStr ''car_02''), (''completed_laps'', PInt 3),
                         (''position'', PInt 1)])])"
    by blast
  then show "list_all (\<lambda>d. key_of py d \<noteq> None)
          (map snd [(''car_01'', [(''driver_id'', PStr ''car_01''), (''completed_laps'', PInt 3),
                         (''position'', PInt 2)]),
           (''car_02'', [(''driver_id'', PStr ''car_02''), (''completed_laps'', PInt 3),
                         (''position'', PInt 1)])])
     \<and> (\<exists>lb. recompute_leaderboard py
            [(''car_01'', [(''driver_id'', PStr ''car_01''), (''completed_laps'', PInt 3),
                         (''position'', PInt 2)]),
           (''car_02'', [(''driver_id'', PStr ''car_02''), (''completed_laps'', PInt 3),
                         (''position'', PInt 1)])] = Inr lb
          \<and> length lb = 2)"
    using h by simp
qed

text \<open>
  Where the claim as stated fails. A payload is free-form JSON and is merged as it comes,
  so a snapshot can hold \<^verbatim>\<open>"position": null\<close>. Then \<^verbatim>\<open>int(None)\<close> raises TypeError in the
  sort key and no leaderboard is returned. The conversions of strings and the order of a
  sort with NaN play no part at this input; they are taken here to refuse every string and
  to leave the list as it is.
\<close>

theorem leaderboard_raises_on_null_position:
  "recompute_leaderboard
     \<lparr>int_of_str = Map.empty, float_of_str = Map.empty, repr = (\<lambda>v. []),
      sort_with_nan = (\<lambda>ks xs. xs)\<rparr>
     [(''car_01'', [(''driver_id'', PStr ''car_01''), (''position'', PNone)])]
   = Inl TypeError"
  by (simp add: recompute_leaderboard_def list_sort_def sort_key_of_def ebind_def dict_get_def)

section \<open>Properties of the merge\<close>

lemma map_of_dict_set:
  "map_of (dict_set k v d) k' = (if k' = k then Some v else map_of d k')"
  by (induction d) auto

lemma dict_get_dict_set:
  "dict_get (dict_set k v d) k' dflt = (if k' = k then v else dict_get d k' dflt)"
  by (simp add: dict_get_def map_of_dict_set)

lemma map_of_dict_update:
  "map_of (dict_update d other) k
     = (case map_of (rev other) k of Some v \<Rightarrow> Some v | None \<Rightarrow> map_of d k)"
  unfolding dict_update_def
proof (induction other arbitrary: d)
  case Nil
  then show ?case by simp
next
  case (Cons p other)
  obtain k' v' where p: "p = (k', v')" by (cases p)
  show ?case
    using Cons[of "dict_set k' v' d"]
    by (auto simp: p map_of_dict_set map_add_def split: option.splits)
qed

lemma map_of_dict_update_absent:
  assumes "k \<notin> set (map fst other)"
  shows "map_of (dict_update d other) k = map_of d k"
proof -
  have "k \<notin> fst ` set (rev other)" using assms by simp
  then have "map_of (rev other) k = None" by (simp add: map_of_eq_None_iff)
  then show ?thesis by (simp add: map_of_dict_update)
qed

lemma merge_fields:
  assumes "process_telemetry_update py now payload ds = Inr ds1"
  shows "field_of ds1 did k =
     (if did = driver_id_of py payload
      then (if k = ''last_update_ts'' then Some (PFloat (Fin now))
            else case map_of (rev payload) k of
                   Some v \<Rightarrow> Some v
                 | None \<Rightarrow> field_of ds did k)
      else field_of ds did k)"
proof -
  from assms have ds1: "ds1 = dict_set (driver_id_of py payload)
      (dict_set ''last_update_ts'' (PFloat (Fin now))
         (dict_update (dict_get ds (driver_id_of py payload) []) payload)) ds"
    by (auto simp: process_telemetry_update_def Let_def split: if_splits)
  show ?thesis
    unfolding ds1 field_of_def
    by (auto simp: dict_get_dict_set map_of_dict_set map_of_dict_update)
qed

lemma map_of_rev_distinct:
  "distinct (map fst xs) \<Longrightarrow> map_of (rev xs) = map_of xs"
proof (induction xs)
  case Nil
  then show ?case by simp
next
  case (Cons p xs)
  obtain k v where p: "p = (k, v)" by (cases p)
  from Cons.prems have "k \<notin> fst ` set xs" by (simp add: p)
  then have n: "map_of xs k = None" by (simp add: map_of_eq_None_iff)
  from Cons have ih: "map_of (rev xs) = map_of xs" by simp
  show ?case
    using n by (auto simp: p ih map_add_def fun_eq_iff split: option.splits)
qed

lemma merge_other_field:
  assumes "process_telemetry_update py now payload ds = Inr ds1"
    and "driver_id_of py payload = did \<longrightarrow> k \<noteq> ''last_update_ts'' \<and> k \<notin> set (map fst payload)"
  shows "field_of ds1 did k = field_of ds did k"
proof (cases "driver_id_of py payload = did")
  case False
  then show ?thesis using merge_fields[OF assms(1)] by auto
next
  case True
  with assms(2) have k: "k \<noteq> ''last_update_ts''" "k \<notin> set (map fst payload)" by auto
  then have "k \<notin> fst ` set (rev payload)" by simp
  then have "map_of (rev payload) k = None" by (simp add: map_of_eq_None_iff)
  then show ?thesis using merge_fields[OF assms(1), of did k] True k(1) by simp
qed

lemma merges_keep:
  assumes "process_all py merges ds = Inr ds'"
    and "list_all (\<lambda>(now, payload).
           driver_id_of py payload = did \<longrightarrow> k \<noteq> ''last_update_ts'' \<and> k \<notin> set (map fst payload))
         merges"
  shows "field_of ds' did k = field_of ds did k"
  using assms
proof (induction merges arbitrary: ds)
  case Nil
  then show ?case by simp
next
  case (Cons m merges)
  obtain now payload where m: "m = (now, payload)" by (cases m)
  from Cons.prems(1) obtain ds1 where
    s1: "process_telemetry_update py now payload ds = Inr ds1" and
    s2: "process_all py merges ds1 = Inr ds'"
    by (cases "process_telemetry_update py now payload ds") (auto simp: m ebind_def)
  from Cons.prems(2) have
    c1: "driver_id_of py payload = did \<longrightarrow> k \<noteq> ''last_update_ts'' \<and> k \<notin> set (map fst payload)"
    and c2: "list_all (\<lambda>(now, payload).
           driver_id_of py payload = did \<longrightarrow> k \<noteq> ''last_update_ts'' \<and> k \<notin> set (map fst payload))
         merges"
    by (simp_all add: m)
  have "field_of ds' did k = field_of ds1 did k" by (rule Cons.IH[OF s2 c2])
  also have "\<dots> = field_of ds did k" by (rule merge_other_field[OF s1 c1])
  finally show ?case .
qed

lemma merges_last_ts:
  assumes "process_all py merges ds = Inr ds'" "merges \<noteq> []"
  shows "field_of ds' (driver_id_of py (snd (last merges))) ''last_update_ts''
           = Some (PFloat (Fin (fst (last merges))))"
  using assms
proof (induction merges arbitrary: ds)
  case Nil
  then show ?case by simp
next
  case (Cons m merges)
  obtain now payload where m: "m = (now, payload)" by (cases m)
  from Cons.prems(1) obtain ds1 where
    s1: "process_telemetry_update py now payload ds = Inr ds1" and
    s2: "process_all py merges ds1 = Inr ds'"
    by (cases "process_telemetry_update py now payload ds") (auto simp: m ebind_def)
  show ?case
  proof (cases "merges = []")
    case True
    then have "ds' = ds1" using s2 by simp
    then show ?thesis using merge_fields[OF s1] True by (simp add: m)
  next
    case False
    then show ?thesis using Cons.IH[OF s2] by simp
  qed
qed

text \<open>
  C2. Take any sequence of merges that all succeed (every payload has a driver id). A field
  of a driver keeps the value it had before the sequence when no merge of the sequence for
  that driver holds the field (the timestamp field \<^verbatim>\<open>last_update_ts\<close> apart, which every
  merge of the driver writes): a merge is an update of the fields it carries, never a
  replacement of the snapshot. After the sequence, \<^verbatim>\<open>last_update_ts\<close> of the driver
  merged last is the server's clock reading of that merge. A single merge gives every field
  of its driver the value of the payload when the payload holds the field and the old
  value otherwise, and sets \<^verbatim>\<open>last_update_ts\<close> to the clock reading, whatever the payload
  says; the other drivers are untouched.
\<close>

theorem merge_is_partial_update:
  assumes "process_all py merges driver_states = Inr driver_states'"
  shows "(list_all (\<lambda>(now, payload). driver_id_of py payload = driver_id \<longrightarrow>
                      k \<noteq> ''last_update_ts'' \<and> k \<notin> set (map fst payload)) merges
            \<longrightarrow> field_of driver_states' driver_id k = field_of driver_states driver_id k)
     \<and> (merges \<noteq> [] \<longrightarrow>
          field_of driver_states' (driver_id_of py (snd (last merges))) ''last_update_ts''
            = Some (PFloat (Fin (fst (last merges)))))
     \<and> (\<forall>now payload ds1.
          process_telemetry_update py now payload driver_states = Inr ds1
          \<and> distinct (map fst payload) \<longrightarrow>
          field_of ds1 driver_id k =
            (if driver_id = driver_id_of py payload
             then (if k = ''last_update_ts'' then Some (PFloat (Fin now))
                   else case map_of payload k of
                          Some v \<Rightarrow> Some v
                        | None \<Rightarrow> field_of driver_states driver_id k)
             else field_of driver_states driver_id k))"
proof (intro conjI impI allI)
  assume "list_all (\<lambda>(now, payload). driver_id_of py payload = driver_id \<longrightarrow>
                      k \<noteq> ''last_update_ts'' \<and> k \<notin> set (map fst payload)) merges"
  then show "field_of driver_states' driver_id k = field_of driver_states driver_id k"
    by (rule merges_keep[OF assms])
next
  assume "merges \<noteq> []"
  then show "field_of driver_states' (driver_id_of py (snd (last merges))) ''last_update_ts''
            = Some (PFloat (Fin (fst (last merges))))"
    by (rule merges_last_ts[OF assms])
next
  fix now payload ds1
  assume h: "process_telemetry_update py now payload driver_states = Inr ds1
          \<and> distinct (map fst payload)"
  then have "map_of (rev payload) = map_of payload" by (simp add: map_of_rev_distinct)
  then show "field_of ds1 driver_id k =
            (if driver_id = driver_id_of py payload
             then (if k = ''last_update_ts'' then Some (PFloat (Fin now))
                   else case map_of payload k of
                          Some v \<Rightarrow> Some v
                        | None \<Rightarrow> field_of driver_states driver_id k)
             else field_of driver_states driver_id k)"
    using merge_fields[of py now payload driver_states ds1 driver_id k] h by simp
qed

theorem merge_is_partial_update_witness:
  "\<forall>py. process_all py
           [(20, [(''driver_id'', PStr ''car_01''), (''lap'', PInt 2)])]
           [(''car_01'', [(''driver_id'', PStr ''car_01''), (''speed'', PInt 5),
                          (''last_update_ts'', PFloat (Fin 10))])]
         = Inr [(''car_01'', [(''driver_id'', PStr ''car_01''), (''speed'', PInt 5),
                              (''last_update_ts'', PFloat (Fin 20)), (''lap'', PInt 2)])]
     \<and> field_of [(''car_01'', [(''driver_id'', PStr ''car_01''), (''speed'', PInt 5),
                                (''last_update_ts'', PFloat (Fin 20)), (''lap'', PInt 2)])]
          ''car_01'' ''speed'' = Some (PInt 5)
     \<and> field_of [(''car_01'', [(''driver_id'', PStr ''car_01''), (''speed'', PInt 5),
                                (''last_update_ts'', PFloat (Fin 20)), (''lap'', PInt 2)])]
          ''car_01'' ''last_update_ts'' = Some (PFloat (Fin 20))"
proof (intro allI)
  fix py
  have h: "process_all py
           [(20, [(''driver_id'', PStr ''car_01''), (''lap'', PInt 2)])]
           [(''car_01'', [(''driver_id'', PStr ''car_01''), (''speed'', PInt 5),
                          (''last_update_ts'', PFloat (Fin 10))])]
         = Inr [(''car_01'', [(''driver_id'', PStr ''car_01''), (''speed'', PInt 5),
                              (''last_update_ts'', PFloat (Fin 20)), (''lap'', PInt 2)])]"
    by (simp add: process_telemetry_update_def driver_id_of_def dict_get_def dict_update_def
        ebind_def Let_def)
  show "process_all py
           [(20, [(''driver_id'', PStr ''car_01''), (''lap'', PInt 2)])]
           [(''car_01'', [(''driver_id'', PStr ''car_01''), (''speed'', PInt 5),
                          (''last_update_ts'', PFloat (Fin 10))])]
         = Inr [(''car_01'', [(''driver_id'', PStr ''car_01''), (''speed'', PInt 5),
                              (''last_update_ts'', PFloat (Fin 20)), (''lap'', PInt 2)])]
     \<and> field_of [(''car_01'', [(''driver_id'', PStr ''car_01''), (''speed'', PInt 5),
                                (''last_update_ts'', PFloat (Fin 20)), (''lap'', PInt 2)])]
          ''car_01'' ''speed'' = Some (PInt 5)
     \<and> field_of [(''car_01'', [(''driver_id'', PStr ''car_01''), (''speed'', PInt 5),
                                (''last_update_ts'', PFloat (Fin 20)), (''lap'', PInt 2)])]
          ''car_01'' ''last_update_ts'' = Some (PFloat (Fin 20))"
    using h merge_is_partial_update[OF h, of "''car_01''" "''speed''"]
    by (simp add: driver_id_of_def field_of_def dict_get_def)
qed

section \<open>Properties of the debounced emit\<close>

lemma spaced_snoc:
  "spaced (bs @ [(began, returned, l)])
     = (spaced bs \<and> (bs \<noteq> [] \<longrightarrow> fst (snd (last bs)) + EMIT_INTERVAL_S \<le> began))"
  by (induction bs rule: spaced.induct) auto

lemma emit_inv_tasks:
  assumes "emit_inv st"
  shows "(tasks st = [] \<and> emit_task st = None)
       \<or> (\<exists>i tk. tasks st = [(i, tk)] \<and> emit_task st = Some i)"
proof (cases "tasks st")
  case Nil
  then show ?thesis using assms by (simp add: emit_inv_def)
next
  case (Cons x xs)
  obtain i tk where x: "x = (i, tk)" by (cases x)
  show ?thesis using assms Cons x by (cases xs; cases tk) (simp_all add: emit_inv_def)
qed

lemma emit_inv_init: "emit_inv (emitter_init t s)"
  by (simp add: emit_inv_def emitter_init_def)

lemma schedule_pending:
  assumes "tasks st = [(i, tk)]" "emit_task st = Some i"
  shows "schedule_emit_leaderboard now st = st"
  using assms by (simp add: schedule_emit_leaderboard_def Let_def)

lemma schedule_idle:
  assumes "tasks st = []" "emit_task st = None"
  shows "schedule_emit_leaderboard now st
       = st\<lparr>emit_task := Some (n_created st),
            tasks := [(n_created st,
                       Sleeping (now + max 0 (EMIT_INTERVAL_S - (now - last_emit_ts st))))],
            n_created := Suc (n_created st)\<rparr>"
  using assms by (simp add: schedule_emit_leaderboard_def Let_def)

lemma notify_keeps_inv:
  assumes "emit_inv st" "clock st \<le> now"
  shows "emit_inv ((schedule_emit_leaderboard now st)\<lparr>clock := now\<rparr>)"
proof -
  from emit_inv_tasks[OF assms(1)] show ?thesis
  proof (elim disjE conjE exE)
    assume a: "tasks st = []" "emit_task st = None"
    show ?thesis
      using assms(1) a by (auto simp: schedule_idle[OF a] emit_inv_def max_def)
  next
    fix i tk assume a: "tasks st = [(i, tk)]" "emit_task st = Some i"
    show ?thesis
      using assms a by (cases tk) (auto simp: schedule_pending[OF a] emit_inv_def)
  qed
qed

lemma wake_state:
  assumes "emit_inv st" "step recompute (Wake i t) st = Some st'"
  shows "\<exists>due. tasks st = [(i, Sleeping due)] \<and> emit_task st = Some i \<and> due \<le> t
           \<and> clock st \<le> t
           \<and> st' = (delayed_emit_compute recompute i t st)\<lparr>clock := t\<rparr>"
proof -
  from assms(2) obtain due where m: "map_of (tasks st) i = Some (Sleeping due)"
    and t: "due \<le> t" "clock st \<le> t"
    and s: "st' = (delayed_emit_compute recompute i t st)\<lparr>clock := t\<rparr>"
    by (auto split: option.splits task.splits if_splits)
  from emit_inv_tasks[OF assms(1)] m have "tasks st = [(i, Sleeping due)] \<and> emit_task st = Some i"
    by (auto split: if_splits)
  then show ?thesis using t s by blast
qed

lemma emitting_state:
  assumes "emit_inv st" "map_of (tasks st) i = Some (Emitting began l)"
  shows "tasks st = [(i, Emitting began l)] \<and> emit_task st = Some i"
  using emit_inv_tasks[OF assms(1)] assms(2) by (auto split: if_splits)

lemma wake_keeps_inv:
  assumes "emit_inv st" "step recompute (Wake i t) st = Some st'"
  shows "emit_inv st'"
proof -
  from wake_state[OF assms] obtain due where
    a: "tasks st = [(i, Sleeping due)]" "emit_task st = Some i" "due \<le> t"
    and s: "st' = (delayed_emit_compute recompute i t st)\<lparr>clock := t\<rparr>"
    by blast
  show ?thesis
  proof (cases "recompute (store st)")
    case (Inl e)
    then show ?thesis
      using assms(1) a by (simp add: s delayed_emit_compute_def task_done_def emit_inv_def)
  next
    case (Inr l)
    then show ?thesis
      using assms(1) a by (auto simp: s delayed_emit_compute_def task_at_def emit_inv_def)
  qed
qed

lemma sent_keeps_inv:
  assumes "emit_inv st" "step recompute (Sent i t) st = Some st'"
  shows "emit_inv st'"
proof -
  from assms(2) obtain began l where m: "map_of (tasks st) i = Some (Emitting began l)"
    and t: "clock st \<le> t"
    and s: "st' = (delayed_emit_sent i began t l st)\<lparr>clock := t\<rparr>"
    by (auto split: option.splits task.splits if_splits)
  from emitting_state[OF assms(1) m] have a: "tasks st = [(i, Emitting began l)]" by simp
  have b: "began \<le> clock st" "emitted st = [] \<or> last_emit_ts st + EMIT_INTERVAL_S \<le> began"
    using assms(1) a by (simp_all add: emit_inv_def)
  have l: "emitted st = [] \<or> fst (snd (last (emitted st))) = last_emit_ts st"
    using assms(1) by (simp add: emit_inv_def)
  have sp: "spaced (emitted st @ [(began, t, l)])"
    using assms(1) b(2) l by (auto simp: spaced_snoc emit_inv_def)
  show ?thesis
    using assms(1) a b(1) t sp
    by (simp add: s delayed_emit_sent_def task_done_def emit_inv_def)
qed

lemma failed_keeps_inv:
  assumes "emit_inv st" "step recompute (Failed i t) st = Some st'"
  shows "emit_inv st'"
proof -
  from assms(2) obtain began l where m: "map_of (tasks st) i = Some (Emitting began l)"
    and s: "st' = (delayed_emit_failed i st)\<lparr>clock := t\<rparr>"
    by (auto split: option.splits task.splits if_splits)
  from emitting_state[OF assms(1) m] have a: "tasks st = [(i, Emitting began l)]" by simp
  show ?thesis
    using assms(1) a by (simp add: s delayed_emit_failed_def task_done_def emit_inv_def)
qed

lemma step_keeps_inv:
  assumes "emit_inv st" "step recompute e st = Some st'"
  shows "emit_inv st'"
proof (cases e)
  case (Notify now)
  then show ?thesis using assms notify_keeps_inv[OF assms(1), of now]
    by (auto split: if_splits)
next
  case (Store s)
  then have s: "st' = st\<lparr>store := s\<rparr>" using assms(2) by auto
  from emit_inv_tasks[OF assms(1)] show ?thesis
  proof (elim disjE conjE exE)
    assume "tasks st = []" "emit_task st = None"
    then show ?thesis using assms(1) by (simp add: s emit_inv_def)
  next
    fix i tk assume "tasks st = [(i, tk)]" "emit_task st = Some i"
    then show ?thesis using assms(1) by (cases tk) (simp_all add: s emit_inv_def)
  qed
next
  case (Wake i t)
  then show ?thesis using assms wake_keeps_inv by blast
next
  case (Sent i t)
  then show ?thesis using assms sent_keeps_inv by blast
next
  case (Failed i t)
  then show ?thesis using assms failed_keeps_inv by blast
qed

lemma run_keeps_inv:
  assumes "emit_inv st" "run recompute es st = Some st'"
  shows "emit_inv st'"
  using assms
proof (induction es arbitrary: st)
  case Nil
  then show ?case by simp
next
  case (Cons e es)
  from Cons.prems(2) obtain st1 where s: "step recompute e st = Some st1"
    and r: "run recompute es st1 = Some st'"
    by (cases "step recompute e st") auto
  show ?case using Cons.IH[OF step_keeps_inv[OF Cons.prems(1) s] r] .
qed

lemma run_append:
  "run recompute (es @ fs) st
     = (case run recompute es st of None \<Rightarrow> None | Some st' \<Rightarrow> run recompute fs st')"
  by (induction es arbitrary: st) (auto split: option.splits)

text \<open>While a task is outstanding, calls of \<^verbatim>\<open>notify\<close> and changes of the driver state leave it alone.\<close>

lemma outside_task_keeps:
  assumes "list_all outside_task es" "run recompute es st = Some st'"
    "tasks st = [(i, tk)]" "emit_task st = Some i"
  shows "tasks st' = [(i, tk)] \<and> emit_task st' = Some i \<and> emitted st' = emitted st
       \<and> last_emit_ts st' = last_emit_ts st \<and> clock st \<le> clock st'"
  using assms
proof (induction es arbitrary: st)
  case Nil
  then show ?case by simp
next
  case (Cons e es)
  from Cons.prems(2) obtain st1 where s: "step recompute e st = Some st1"
    and r: "run recompute es st1 = Some st'"
    by (cases "step recompute e st") auto
  have o: "outside_task e" "list_all outside_task es" using Cons.prems(1) by simp_all
  have k: "tasks st1 = [(i, tk)] \<and> emit_task st1 = Some i \<and> emitted st1 = emitted st
       \<and> last_emit_ts st1 = last_emit_ts st \<and> clock st \<le> clock st1"
  proof (cases e)
    case (Notify now)
    then show ?thesis
      using s Cons.prems(3,4) schedule_pending[OF Cons.prems(3,4), of now]
      by (auto split: if_splits)
  next
    case (Store x)
    then show ?thesis using s Cons.prems(3,4) by auto
  next
    case (Wake j t)
    then show ?thesis using o(1) by simp
  next
    case (Sent j t)
    then show ?thesis using o(1) by simp
  next
    case (Failed j t)
    then show ?thesis using o(1) by simp
  qed
  from Cons.IH[OF o(2) r] k show ?case by auto
qed

lemma wake_then_sent:
  assumes inv: "emit_inv st1"
    and rc: "recompute (store st1) = Inr lb"
    and mid: "list_all outside_task mid"
    and r: "run recompute (Wake i t # mid @ [Sent i t']) st1 = Some st2"
  shows "emitted st2 = emitted st1 @ [(t, t', lb)] \<and> tasks st2 = [] \<and> emit_task st2 = None"
proof -
  from r obtain sw where w: "step recompute (Wake i t) st1 = Some sw"
    and r1: "run recompute (mid @ [Sent i t']) sw = Some st2"
    by (cases "step recompute (Wake i t) st1") auto
  from r1 obtain sm where m: "run recompute mid sw = Some sm"
    and se: "step recompute (Sent i t') sm = Some st2"
    by (auto simp: run_append split: option.splits)
  from wake_state[OF inv w] obtain due where
    a: "tasks st1 = [(i, Sleeping due)]" "emit_task st1 = Some i"
    and s: "sw = (delayed_emit_compute recompute i t st1)\<lparr>clock := t\<rparr>"
    by blast
  have sw: "tasks sw = [(i, Emitting t lb)]" "emit_task sw = Some i" "emitted sw = emitted st1"
    using a rc by (simp_all add: s delayed_emit_compute_def task_at_def)
  from outside_task_keeps[OF mid m sw(1,2)] sw(3)
  have sm: "tasks sm = [(i, Emitting t lb)]" "emitted sm = emitted st1" by simp_all
  from se sm show ?thesis
    by (auto simp: delayed_emit_sent_def task_done_def split: if_splits)
qed

text \<open>
  C3, as the code has it. A \<^verbatim>\<open>notify\<close> that arrives while the task \<^verbatim>\<open>_emit_task\<close> refers to
  is outstanding, asleep or emitting, changes nothing; after a \<^verbatim>\<open>notify\<close> exactly one task
  is outstanding, and in every run from the state of the loaded module at most one task is
  outstanding at any moment. A task broadcasts the leaderboard computed from the driver
  state of the moment its sleep ends, whatever calls of \<^verbatim>\<open>notify\<close> and changes of the
  driver state come while its emit is under way: these calls are absorbed, and when the
  emit returns no task is left to broadcast their state. Nothing is broadcast when the
  computation or the emit raises. Each broadcast of a task begins at least
  \<^verbatim>\<open>EMIT_INTERVAL_S\<close> after
  the one before returned: at most one broadcast per interval, and not exactly one per
  burst of \<^verbatim>\<open>notify\<close> calls.
\<close>

theorem emit_at_most_once_per_interval:
  "(emit_task st = Some i \<and> map_of (tasks st) i = Some tk \<longrightarrow>
      schedule_emit_leaderboard now st = st)
   \<and> (run recompute es (emitter_init boot drivers) = Some before \<longrightarrow>
        length (tasks before) \<le> 1
        \<and> length (tasks (schedule_emit_leaderboard now before)) = 1
        \<and> spaced (emitted before)
        \<and> list_all (\<lambda>(began, returned, l). began \<le> returned) (emitted before))
   \<and> (run recompute es (emitter_init boot drivers) = Some before
       \<and> recompute (store before) = Inr lb
       \<and> list_all outside_task mid
       \<and> run recompute (Wake i t # mid @ [Sent i t']) before = Some after \<longrightarrow>
        emitted after = emitted before @ [(t, t', lb)] \<and> tasks after = [] \<and> emit_task after = None)
   \<and> (run recompute es (emitter_init boot drivers) = Some before
       \<and> recompute (store before) = Inl e
       \<and> step recompute (Wake i t) before = Some after \<longrightarrow>
        emitted after = emitted before \<and> tasks after = [] \<and> emit_task after = None)
   \<and> (run recompute es (emitter_init boot drivers) = Some before
       \<and> step recompute (Failed i t) before = Some after \<longrightarrow>
        emitted after = emitted before \<and> tasks after = [] \<and> emit_task after = None)"
proof (intro conjI impI)
  assume "emit_task st = Some i \<and> map_of (tasks st) i = Some tk"
  then show "schedule_emit_leaderboard now st = st"
    by (simp add: schedule_emit_leaderboard_def)
next
  assume r: "run recompute es (emitter_init boot drivers) = Some before"
  have inv: "emit_inv before" using run_keeps_inv[OF emit_inv_init r] .
  from emit_inv_tasks[OF inv] show "length (tasks before) \<le> 1" by auto
  from emit_inv_tasks[OF inv] show "length (tasks (schedule_emit_leaderboard now before)) = 1"
  proof (elim disjE conjE exE)
    assume a: "tasks before = []" "emit_task before = None"
    show ?thesis by (simp add: schedule_idle[OF a])
  next
    fix j tk' assume a: "tasks before = [(j, tk')]" "emit_task before = Some j"
    show ?thesis by (simp add: schedule_pending[OF a] a(1))
  qed
  from inv show "spaced (emitted before)" by (simp add: emit_inv_def)
  from inv show "list_all (\<lambda>(began, returned, l). began \<le> returned) (emitted before)"
    by (simp add: emit_inv_def)
next
  assume h: "run recompute es (emitter_init boot drivers) = Some before
       \<and> recompute (store before) = Inr lb
       \<and> list_all outside_task mid
       \<and> run recompute (Wake i t # mid @ [Sent i t']) before = Some after"
  then have r: "run recompute es (emitter_init boot drivers) = Some before" by simp
  have inv: "emit_inv before" using run_keeps_inv[OF emit_inv_init r] .
  from wake_then_sent[OF inv] h
  have "emitted after = emitted before @ [(t, t', lb)] \<and> tasks after = [] \<and> emit_task after = None"
    by blast
  then show "emitted after = emitted before @ [(t, t', lb)]" "tasks after = []" "emit_task after = None"
    by simp_all
next
  assume h: "run recompute es (emitter_init boot drivers) = Some before
       \<and> recompute (store before) = Inl e
       \<and> step recompute (Wake i t) before = Some after"
  then have r: "run recompute es (emitter_init boot drivers) = Some before" by simp
  have inv: "emit_inv before" using run_keeps_inv[OF emit_inv_init r] .
  from h have w: "step recompute (Wake i t) before = Some after" by simp
  from wake_state[OF inv w] obtain due where
    a: "tasks before = [(i, Sleeping due)]"
    and s: "after = (delayed_emit_compute recompute i t before)\<lparr>clock := t\<rparr>"
    by blast
  from h have rc: "recompute (store before) = Inl e" by simp
  show "emitted after = emitted before" "tasks after = []" "emit_task after = None"
    using a rc by (simp_all add: s delayed_emit_compute_def task_done_def)
next
  assume h: "run recompute es (emitter_init boot drivers) = Some before
       \<and> step recompute (Failed i t) before = Some after"
  then have r: "run recompute es (emitter_init boot drivers) = Some before" by simp
  have inv: "emit_inv before" using run_keeps_inv[OF emit_inv_init r] .
  from h obtain began l where m: "map_of (tasks before) i = Some (Emitting began l)"
    and s: "after = (delayed_emit_failed i before)\<lparr>clock := t\<rparr>"
    by (auto split: option.splits task.splits if_splits)
  from emitting_state[OF inv m] have a: "tasks before = [(i, Emitting began l)]" by simp
  show "emitted after = emitted before" "tasks after = []" "emit_task after = None"
    using a by (simp_all add: s delayed_emit_failed_def task_done_def)
qed

text \<open>
  Where the claim as stated fails. The module has just been loaded: the last emit is long
  past and no task is outstanding; the leaderboard is the driver state itself. First,
  \<^verbatim>\<open>notify\<close> is called at time 1000: the wait is 0, the task emits at once and is done. A
  second \<^verbatim>\<open>notify\<close> comes at 1000.1, a tenth of a second later and so within one interval
  of 0.5 s: a new task is created, and it broadcasts at 1000.5. Two calls within less than
  one interval have produced two broadcasts, not exactly one. Second, the driver state
  becomes 1 and \<^verbatim>\<open>notify\<close> is called at time 1000; the task computes the leaderboard and
  its emit is under way when the driver state becomes 2 and \<^verbatim>\<open>notify\<close> is called at
  1000.1; the emit returns at 1000.2. The second call has been absorbed: the one broadcast
  carries state 1, older than the state at the last \<^verbatim>\<open>notify\<close>, and no task is left to
  broadcast state 2.
\<close>

theorem two_notifies_two_broadcasts:
  "run Inr [Notify 1000, Wake 0 1000, Sent 0 1000, Notify 1000.1, Wake 1 1000.5, Sent 1 1000.5]
      (emitter_init 0 (0::nat) :: (nat, nat) emitter)
     = Some \<lparr>last_emit_ts = 1000.5, emit_task = None, tasks = [], n_created = 2,
      store = 0, emitted = [(1000, 1000, 0), (1000.5, 1000.5, 0)], clock = 1000.5\<rparr>
   \<and> run Inr [Store 1, Notify 1000, Wake 0 1000, Store 2, Notify 1000.1, Sent 0 1000.2]
      (emitter_init 0 (0::nat) :: (nat, nat) emitter)
     = Some \<lparr>last_emit_ts = 1000.2, emit_task = None, tasks = [], n_created = 1,
      store = 2, emitted = [(1000, 1000.2, 1)], clock = 1000.2\<rparr>"
  by (simp add: emitter_init_def schedule_emit_leaderboard_def delayed_emit_compute_def
      delayed_emit_sent_def delayed_emit_failed_def task_done_def task_at_def
      EMIT_INTERVAL_S_def Let_def)

theorem emit_at_most_once_per_interval_witness:
  "run Inr [Store 1, Notify 1000] (emitter_init 0 (0::nat) :: (nat, nat) emitter)
      = Some \<lparr>last_emit_ts = 0, emit_task = Some 0, tasks = [(0, Sleeping 1000)], n_created = 1,
      store = 1::nat, emitted = []::(real \<times> real \<times> nat) list, clock = 1000\<rparr>
   \<and> run Inr (Wake 0 1000 # [Store 2, Notify 1000.1] @ [Sent 0 1000.2])
      \<lparr>last_emit_ts = 0, emit_task = Some 0, tasks = [(0, Sleeping 1000)], n_created = 1,
      store = 1::nat, emitted = []::(real \<times> real \<times> nat) list, clock = 1000\<rparr>
      = Some \<lparr>last_emit_ts = 1000.2, emit_task = None, tasks = [], n_created = 1,
      store = 2::nat, emitted = [(1000, 1000.2, 1::nat)], clock = 1000.2\<rparr>
   \<and> run (\<lambda>s::nat. Inl TypeError :: error + nat) [Notify 1000] (emitter_init 0 (0::nat) :: (nat, nat) emitter)
      = Some \<lparr>last_emit_ts = 0, emit_task = Some 0, tasks = [(0, Sleeping 1000)], n_created = 1,
      store = 0::nat, emitted = []::(real \<times> real \<times> nat) list, clock = 1000\<rparr>
   \<and> step (\<lambda>s::nat. Inl TypeError :: error + nat) (Wake 0 1000)
      \<lparr>last_emit_ts = 0, emit_task = Some 0, tasks = [(0, Sleeping 1000)], n_created = 1,
      store = 0::nat, emitted = []::(real \<times> real \<times> nat) list, clock = 1000\<rparr>
      = Some \<lparr>last_emit_ts = 0, emit_task = None, tasks = [], n_created = 1,
      store = 0::nat, emitted = []::(real \<times> real \<times> nat) list, clock = 1000\<rparr>
   \<and> run Inr [Notify 1000, Wake 0 1000] (emitter_init 0 (0::nat) :: (nat, nat) emitter)
      = Some \<lparr>last_emit_ts = 0, emit_task = Some 0, tasks = [(0, Emitting 1000 0)], n_created = 1,
      store = 0::nat, emitted = []::(real \<times> real \<times> nat) list, clock = 1000\<rparr>
   \<and> step Inr (Failed 0 1000.2)
      \<lparr>last_emit_ts = 0, emit_task = Some 0, tasks = [(0, Emitting 1000 0)], n_created = 1,
      store = 0::nat, emitted = []::(real \<times> real \<times> nat) list, clock = 1000\<rparr>
      = Some \<lparr>last_emit_ts = 0, emit_task = None, tasks = [], n_created = 1,
      store = 0::nat, emitted = []::(real \<times> real \<times> nat) list, clock = 1000.2\<rparr>
   \<and> schedule_emit_leaderboard 1000.1
      \<lparr>last_emit_ts = 0, emit_task = Some 0, tasks = [(0, Sleeping 1000)], n_created = 1,
      store = 1::nat, emitted = []::(real \<times> real \<times> nat) list, clock = 1000\<rparr>
      = \<lparr>last_emit_ts = 0, emit_task = Some 0, tasks = [(0, Sleeping 1000)], n_created = 1,
      store = 1::nat, emitted = []::(real \<times> real \<times> nat) list, clock = 1000\<rparr>
   \<and> length (tasks (schedule_emit_leaderboard 1000.1
      \<lparr>last_emit_ts = 0, emit_task = Some 0, tasks = [(0, Sleeping 1000)], n_created = 1,
      store = 1::nat, emitted = []::(real \<times> real \<times> nat) list, clock = 1000\<rparr>)) = 1
   \<and> emitted \<lparr>last_emit_ts = 1000.2, emit_task = None, tasks = [], n_created = 1,
      store = 2::nat, emitted = [(1000, 1000.2, 1::nat)], clock = 1000.2\<rparr> = [(1000, 1000.2, 1)]
   \<and> tasks \<lparr>last_emit_ts = 0, emit_task = None, tasks = [], n_created = 1,
      store = 0::nat, emitted = []::(real \<times> real \<times> nat) list, clock = 1000\<rparr> = []
   \<and> tasks \<lparr>last_emit_ts = 0, emit_task = None, tasks = [], n_created = 1,
      store = 0::nat, emitted = []::(real \<times> real \<times> nat) list, clock = 1000.2\<rparr> = []"
proof -
  have a1: "run Inr [Store 1, Notify 1000] (emitter_init 0 (0::nat) :: (nat, nat) emitter)
      = Some \<lparr>last_emit_ts = 0, emit_task = Some 0, tasks = [(0, Sleeping 1000)], n_created = 1,
      store = 1::nat, emitted = []::(real \<times> real \<times> nat) list, clock = 1000\<rparr>"
    by (simp add: emitter_init_def schedule_emit_leaderboard_def delayed_emit_compute_def
      delayed_emit_sent_def delayed_emit_failed_def task_done_def task_at_def
      EMIT_INTERVAL_S_def Let_def)
  have a2: "run Inr (Wake 0 1000 # [Store 2, Notify 1000.1] @ [Sent 0 1000.2])
      \<lparr>last_emit_ts = 0, emit_task = Some 0, tasks = [(0, Sleeping 1000)], n_created = 1,
      store = 1::nat, emitted = []::(real \<times> real \<times> nat) list, clock = 1000\<rparr>
      = Some \<lparr>last_emit_ts = 1000.2, emit_task = None, tasks = [], n_created = 1,
      store = 2::nat, emitted = [(1000, 1000.2, 1::nat)], clock = 1000.2\<rparr>"
    by (simp add: emitter_init_def schedule_emit_leaderboard_def delayed_emit_compute_def
      delayed_emit_sent_def delayed_emit_failed_def task_done_def task_at_def
      EMIT_INTERVAL_S_def Let_def)
  have b1: "run (\<lambda>s::nat. Inl TypeError :: error + nat) [Notify 1000] (emitter_init 0 (0::nat) :: (nat, nat) emitter)
      = Some \<lparr>last_emit_ts = 0, emit_task = Some 0, tasks = [(0, Sleeping 1000)], n_created = 1,
      store = 0::nat, emitted = []::(real \<times> real \<times> nat) list, clock = 1000\<rparr>"
    by (simp add: emitter_init_def schedule_emit_leaderboard_def delayed_emit_compute_def
      delayed_emit_sent_def delayed_emit_failed_def task_done_def task_at_def
      EMIT_INTERVAL_S_def Let_def)
  have b2: "step (\<lambda>s::nat. Inl TypeError :: error + nat) (Wake 0 1000)
      \<lparr>last_emit_ts = 0, emit_task = Some 0, tasks = [(0, Sleeping 1000)], n_created = 1,
      store = 0::nat, emitted = []::(real \<times> real \<times> nat) list, clock = 1000\<rparr>
      = Some \<lparr>last_emit_ts = 0, emit_task = None, tasks = [], n_created = 1,
      store = 0::nat, emitted = []::(real \<times> real \<times> nat) list, clock = 1000\<rparr>"
    by (simp add: emitter_init_def schedule_emit_leaderboard_def delayed_emit_compute_def
      delayed_emit_sent_def delayed_emit_failed_def task_done_def task_at_def
      EMIT_INTERVAL_S_def Let_def)
  have c1: "run Inr [Notify 1000, Wake 0 1000] (emitter_init 0 (0::nat) :: (nat, nat) emitter)
      = Some \<lparr>last_emit_ts = 0, emit_task = Some 0, tasks = [(0, Emitting 1000 0)], n_created = 1,
      store = 0::nat, emitted = []::(real \<times> real \<times> nat) list, clock = 1000\<rparr>"
    by (simp add: emitter_init_def schedule_emit_leaderboard_def delayed_emit_compute_def
      delayed_emit_sent_def delayed_emit_failed_def task_done_def task_at_def
      EMIT_INTERVAL_S_def Let_def)
  have c2: "step Inr (Failed 0 1000.2)
      \<lparr>last_emit_ts = 0, emit_task = Some 0, tasks = [(0, Emitting 1000 0)], n_created = 1,
      store = 0::nat, emitted = []::(real \<times> real \<times> nat) list, clock = 1000\<rparr>
      = Some \<lparr>last_emit_ts = 0, emit_task = None, tasks = [], n_created = 1,
      store = 0::nat, emitted = []::(real \<times> real \<times> nat) list, clock = 1000.2\<rparr>"
    by (simp add: emitter_init_def schedule_emit_leaderboard_def delayed_emit_compute_def
      delayed_emit_sent_def delayed_emit_failed_def task_done_def task_at_def
      EMIT_INTERVAL_S_def Let_def)
  show ?thesis
    using a1 a2 b1 b2 c1 c2
      emit_at_most_once_per_interval[where recompute = Inr and es = "[Store 1, Notify 1000]" and boot = 0 and drivers = "0::nat"
        and before = "\<lparr>last_emit_ts = 0, emit_task = Some 0, tasks = [(0, Sleeping 1000)], n_created = 1,
      store = 1::nat, emitted = []::(real \<times> real \<times> nat) list, clock = 1000\<rparr>"
        and st = "\<lparr>last_emit_ts = 0, emit_task = Some 0, tasks = [(0, Sleeping 1000)], n_created = 1,
      store = 1::nat, emitted = []::(real \<times> real \<times> nat) list, clock = 1000\<rparr>"
        and i = 0 and tk = "Sleeping 1000" and now = "1000.1" and lb = 1 and mid = "[Store 2, Notify 1000.1]"
        and t = 1000 and t' = "1000.2"
        and after = "\<lparr>last_emit_ts = 1000.2, emit_task = None, tasks = [], n_created = 1,
      store = 2::nat, emitted = [(1000, 1000.2, 1::nat)], clock = 1000.2\<rparr>"]
      emit_at_most_once_per_interval[where recompute = "(\<lambda>s::nat. Inl TypeError :: error + nat)" and es = "[Notify 1000]" and boot = 0 and drivers = "0::nat"
        and before = "\<lparr>last_emit_ts = 0, emit_task = Some 0, tasks = [(0, Sleeping 1000)], n_created = 1,
      store = 0::nat, emitted = []::(real \<times> real \<times> nat) list, clock = 1000\<rparr>"
        and e = TypeError and i = 0 and t = 1000
        and after = "\<lparr>last_emit_ts = 0, emit_task = None, tasks = [], n_created = 1,
      store = 0::nat, emitted = []::(real \<times> real \<times> nat) list, clock = 1000\<rparr>"]
      emit_at_most_once_per_interval[where recompute = Inr and es = "[Notify 1000, Wake 0 1000]" and boot = 0 and drivers = "0::nat"
        and before = "\<lparr>last_emit_ts = 0, emit_task = Some 0, tasks = [(0, Emitting 1000 0)], n_created = 1,
      store = 0::nat, emitted = []::(real \<times> real \<times> nat) list, clock = 1000\<rparr>"
        and i = 0 and t = "1000.2"
        and after = "\<lparr>last_emit_ts = 0, emit_task = None, tasks = [], n_created = 1,
      store = 0::nat, emitted = []::(real \<times> real \<times> nat) list, clock = 1000.2\<rparr>"]
    by simp
qed


end
